theory Spec2Isabelle
  imports Main "HOL-Library.Word" "HOL-Library.Sublist" "HOL-Library.AList"
begin

section \<open>Text and bytes\<close>

text \<open>
  A Python \<open>str\<close> is a sequence of Unicode code points and a \<open>bytes\<close> value a sequence
  of octets. Object keys, error codes and hex digests are plain strings.
\<close>

type_synonym codepoint = nat
type_synonym ustring = "codepoint list"
type_synonym byte = "8 word"
type_synonym bytes = "byte list"

datatype content = Bytes bytes | Str ustring

section \<open>Data model\<close>

text \<open>
  The dictionaries that \<open>get_object_info\<close> and \<open>curate_file\<close> return, the entries that
  \<open>ingest\<close> appends to \<open>manifest_entries\<close> (the three \<open>curated_*\<close> keys exist only in the
  entry of the text member) and the dictionary that \<open>write_manifest\<close> serialises.
\<close>

record object_info =
  info_key :: string
  info_size_bytes :: nat
  info_content_type :: string
  info_checksum :: string
  info_content :: bytes

record curation_result =
  curated_key :: string
  curated_size_bytes :: nat
  curated_checksum :: string

record manifest_entry =
  entry_key :: string
  entry_type :: string
  entry_size_bytes :: nat
  entry_checksum :: string
  entry_content_type :: string
  entry_pii :: string
  entry_status :: string
  entry_curation :: "curation_result option"

record manifest =
  schema_version :: nat
  batch_id :: string
  dt :: string
  source_bucket :: string
  source_prefix :: string
  ingester :: "(string \<times> string) list"
  entries :: "manifest_entry list"

text \<open>
  The functions of the Python standard library that \<open>ingester_cn_only.py\<close> calls and that
  are not part of the repository are parameters of the model: the UTF-8 codec
  (\<open>bytes.decode('utf-8', errors='replace')\<close> and \<open>str.encode('utf-8')\<close>),
  \<open>unicodedata.normalize('NFC', _)\<close>, \<open>unicodedata.category\<close>, the whitespace test of
  \<open>str.strip()\<close>, \<open>hashlib.sha256(_).hexdigest()\<close>, \<open>json.dumps(_, indent=2)\<close>, the two
  renderings of \<open>datetime.now(timezone.utc)\<close> (\<open>isoformat()\<close> and \<open>strftime('%Y-%m-%d')\<close>,
  indexed by the number of clock readings made before) and the environment variable
  \<open>PARTNER_BUCKET\<close>.
\<close>

record pylib =
  decode_utf8_replace :: "bytes \<Rightarrow> ustring"
  encode_utf8 :: "ustring \<Rightarrow> bytes"
  normalize_NFC :: "ustring \<Rightarrow> ustring"
  category :: "codepoint \<Rightarrow> string"
  isspace :: "codepoint \<Rightarrow> bool"
  sha256_hexdigest :: "bytes \<Rightarrow> string"
  json_dumps :: "manifest \<Rightarrow> ustring"
  now_isoformat :: "nat \<Rightarrow> string"
  now_date :: "nat \<Rightarrow> string"
  environ_PARTNER_BUCKET :: "string option"

abbreviation SPACE :: codepoint where "SPACE \<equiv> 0x20"
abbreviation LF :: codepoint where "LF \<equiv> 0x0A"
abbreviation CR :: codepoint where "CR \<equiv> 0x0D"
abbreviation BOM :: codepoint where "BOM \<equiv> 0xFEFF"

section \<open>CNIngester.normalize\_text\<close>

text \<open>\<open>content.lstrip('\ufeff')\<close>: drop the leading run of U+FEFF.\<close>

definition lstrip_bom :: "ustring \<Rightarrow> ustring" where
  "lstrip_bom s = dropWhile (\<lambda>c. c = BOM) s"

text \<open>\<open>''.join(char for char in content if unicodedata.category(char) != 'Cf')\<close>\<close>

definition remove_Cf :: "pylib \<Rightarrow> ustring \<Rightarrow> ustring" where
  "remove_Cf lib s = filter (\<lambda>char. category lib char \<noteq> ''Cf'') s"

text \<open>
  \<open>re.sub(r' +', ' ', content)\<close>: scanning from the left, every maximal run of U+0020 is
  replaced by one U+0020.
\<close>

function re_sub_spaces :: "ustring \<Rightarrow> ustring" where
  "re_sub_spaces [] = []"
| "re_sub_spaces (c # cs) =
     (if c = SPACE then SPACE # re_sub_spaces (dropWhile (\<lambda>d. d = SPACE) cs)
      else c # re_sub_spaces cs)"
  by pat_completeness auto
termination
  by (relation "measure length") (auto simp: length_dropWhile_le less_Suc_eq_le)

text \<open>
  \<open>content.replace('\r\n', '\n')\<close>: the non-overlapping occurrences of CR LF, from the
  left, become LF.
\<close>

fun replace_crlf :: "ustring \<Rightarrow> ustring" where
  "replace_crlf (a # b # cs) =
     (if a = CR \<and> b = LF then LF # replace_crlf cs else a # replace_crlf (b # cs))"
| "replace_crlf cs = cs"

text \<open>\<open>.replace('\r', '\n')\<close>\<close>

definition replace_cr :: "ustring \<Rightarrow> ustring" where
  "replace_cr s = map (\<lambda>c. if c = CR then LF else c) s"

text \<open>
  \<open>re.sub(r'\n\n+', '\n\n', content)\<close>: every maximal run of two or more LF is replaced
  by exactly two LF.
\<close>

function re_sub_newlines :: "ustring \<Rightarrow> ustring" where
  "re_sub_newlines (a # b # cs) =
     (if a = LF \<and> b = LF then LF # LF # re_sub_newlines (dropWhile (\<lambda>d. d = LF) cs)
      else a # re_sub_newlines (b # cs))"
| "re_sub_newlines [a] = [a]"
| "re_sub_newlines [] = []"
  by pat_completeness auto
termination
  by (relation "measure length")
    (auto simp: less_Suc_eq_le intro: le_SucI order_trans [OF length_dropWhile_le])

text \<open>\<open>content.strip()\<close>: drop the whitespace at both ends.\<close>

definition strip :: "pylib \<Rightarrow> ustring \<Rightarrow> ustring" where
  "strip lib s = rev (dropWhile (isspace lib) (rev (dropWhile (isspace lib) s)))"

definition normalize_text :: "pylib \<Rightarrow> content \<Rightarrow> ustring" where
  "normalize_text lib content =
     (let content = (case content of Bytes b \<Rightarrow> decode_utf8_replace lib b | Str s \<Rightarrow> s);
          content = normalize_NFC lib content;
          content = lstrip_bom content;
          content = remove_Cf lib content;
          content = re_sub_spaces content;
          content = replace_cr (replace_crlf content);
          content = re_sub_newlines content;
          content = strip lib content
      in content)"

text \<open>The shapes the normalizer is meant to remove, as executable tests.\<close>

fun double_space :: "ustring \<Rightarrow> bool" where
  "double_space (a # b # cs) = ((a = SPACE \<and> b = SPACE) \<or> double_space (b # cs))"
| "double_space cs = False"

fun triple_newline :: "ustring \<Rightarrow> bool" where
  "triple_newline (a # b # c # ds) =
     ((a = LF \<and> b = LF \<and> c = LF) \<or> triple_newline (b # c # ds))"
| "triple_newline cs = False"

section \<open>The object store\<close>

text \<open>
  The S3 client is a collaborator outside the repository. Its model is a world that holds
  the objects of the one bucket the ingester works in, the pages the listing paginator
  yields for a prefix (\<open>None\<close> is a page without the key \<open>Contents\<close>), the requests issued
  so far, the number of clock readings made so far and the lines printed so far. Whether
  the service answers a request or raises is decided by a schedule: every request takes the
  next element (\<open>Some e\<close>: the request raises \<open>e\<close>; \<open>None\<close>, or an exhausted schedule: the
  request is served).
\<close>

datatype s3_error = ClientError string | OtherError string

record s3_object =
  body :: bytes
  content_type :: "string option"
  tagging :: "string option"

datatype s3_call =
    HeadBucket
  | PutObject string bytes string "string option"
  | GetObject string
  | HeadObject string
  | ListObjectsV2 string nat

datatype message =
    BucketVerified
  | HealthWritten string
  | HealthFailed s3_error
  | IncompletePair string string
  | FoundPairs nat string
  | DiscoveryFailed s3_error
  | ObjectInfoFailed string s3_error
  | CuratedExists string
  | TaggingDenied string
  | CuratedWritten string
  | CurateFailed string s3_error
  | ManifestWritten string string nat
  | ManifestFailed s3_error
  | Banner string string
  | Blank
  | NoPairs
  | ProcessingPair string
  | FileInfoFailed string
  | CurationFailed string
  | Processed string
  | Summary nat nat bool
  | NoEntries

record world =
  objects :: "string \<rightharpoonup> s3_object"
  listing :: "string \<Rightarrow> string list option list"
  faults :: "s3_error option list"
  calls :: "s3_call list"
  clock :: nat
  stdout :: "message list"

definition print :: "message \<Rightarrow> world \<Rightarrow> world" where
  "print m w = w\<lparr>stdout := stdout w @ [m]\<rparr>"

definition s3_request :: "s3_call \<Rightarrow> world \<Rightarrow> s3_error option \<times> world" where
  "s3_request c w =
     (case faults w of
        [] \<Rightarrow> (None, w\<lparr>calls := calls w @ [c]\<rparr>)
      | f # fs \<Rightarrow> (f, w\<lparr>faults := fs, calls := calls w @ [c]\<rparr>))"

definition head_bucket :: "world \<Rightarrow> (s3_error + unit) \<times> world" where
  "head_bucket w =
     (case s3_request HeadBucket w of
        (Some e, w') \<Rightarrow> (Inl e, w')
      | (None, w') \<Rightarrow> (Inr (), w'))"

definition put_object ::
  "string \<Rightarrow> bytes \<Rightarrow> string \<Rightarrow> string option \<Rightarrow> world \<Rightarrow> (s3_error + unit) \<times> world" where
  "put_object k b ctype tags w =
     (case s3_request (PutObject k b ctype tags) w of
        (Some e, w') \<Rightarrow> (Inl e, w')
      | (None, w') \<Rightarrow>
          (Inr (), w'\<lparr>objects := (objects w')(k \<mapsto>
             \<lparr>body = b, content_type = Some ctype, tagging = tags\<rparr>)\<rparr>))"

definition get_object :: "string \<Rightarrow> world \<Rightarrow> (s3_error + s3_object) \<times> world" where
  "get_object k w =
     (case s3_request (GetObject k) w of
        (Some e, w') \<Rightarrow> (Inl e, w')
      | (None, w') \<Rightarrow>
          (case objects w' k of
             None \<Rightarrow> (Inl (ClientError ''NoSuchKey''), w')
           | Some obj \<Rightarrow> (Inr obj, w')))"

definition head_object :: "string \<Rightarrow> world \<Rightarrow> (s3_error + s3_object) \<times> world" where
  "head_object k w =
     (case s3_request (HeadObject k) w of
        (Some e, w') \<Rightarrow> (Inl e, w')
      | (None, w') \<Rightarrow>
          (case objects w' k of
             None \<Rightarrow> (Inl (ClientError ''404''), w')
           | Some obj \<Rightarrow> (Inr obj, w')))"

definition is_put :: "s3_call \<Rightarrow> bool" where
  "is_put c = (case c of PutObject k b ctype tags \<Rightarrow> True | _ \<Rightarrow> False)"


section \<open>Strings and paths\<close>

definition endswith :: "string \<Rightarrow> string \<Rightarrow> bool" where
  "endswith s ext \<longleftrightarrow> length ext \<le> length s \<and> drop (length s - length ext) s = ext"

text \<open>\<open>os.path.basename\<close> (POSIX): what follows the last slash.\<close>

definition basename :: "string \<Rightarrow> string" where
  "basename p = rev (takeWhile (\<lambda>c. c \<noteq> CHR ''/'') (rev p))"

text \<open>\<open>s.replace(old, new)\<close> for a non-empty \<open>old\<close>.\<close>

function str_replace :: "string \<Rightarrow> string \<Rightarrow> string \<Rightarrow> string" where
  "str_replace old new [] = []"
| "str_replace old new (c # cs) =
     (if old \<noteq> [] \<and> take (length old) (c # cs) = old
      then new @ str_replace old new (drop (length old) (c # cs))
      else c # str_replace old new cs)"
  by pat_completeness auto
termination
  by (relation "measure (\<lambda>(old, new, s). length s)") auto

definition bucket_name :: "pylib \<Rightarrow> string" where
  "bucket_name lib =
     (case environ_PARTNER_BUCKET lib of None \<Rightarrow> ''cn-rainier-data-lake'' | Some b \<Rightarrow> b)"

section \<open>CNIngester.health\_check\<close>

definition tick :: "world \<Rightarrow> world" where
  "tick w = w\<lparr>clock := Suc (clock w)\<rparr>"

definition health_key :: string where
  "health_key = ''parallax/health/healthcheck.txt''"

definition health_check :: "pylib \<Rightarrow> world \<Rightarrow> bool \<times> world" where
  "health_check lib w =
     (case head_bucket w of
        (Inl e, w) \<Rightarrow> (False, print (HealthFailed e) w)
      | (Inr _, w) \<Rightarrow>
          (let w = print BucketVerified w;
               timestamp = now_isoformat lib (clock w);
               w = tick w;
               health_content = ''Health check at '' @ timestamp @ [CHR 0x0A]
           in case put_object health_key (encode_utf8 lib (map of_char health_content))
                     ''text/plain'' None w of
                (Inl e, w) \<Rightarrow> (False, print (HealthFailed e) w)
              | (Inr _, w) \<Rightarrow> (True, print (HealthWritten health_key) w)))"

section \<open>CNIngester.discover\_pairs\<close>

text \<open>
  \<open>files_by_base\<close> is a dictionary in insertion order, each value a dictionary with at most
  the keys \<open>'json'\<close> and \<open>'txt'\<close>.
\<close>

record files =
  files_json :: "string option"
  files_txt :: "string option"

type_synonym pair = "string \<times> string \<times> string"

text \<open>The body of the inner loop, for one listed key.\<close>

definition record_key :: "string \<Rightarrow> (string \<times> files) list \<Rightarrow> (string \<times> files) list" where
  "record_key key files_by_base =
     (if endswith key ''.json'' \<or> endswith key ''.txt'' then
        let base_key = (if endswith key ''.json'' then take (length key - 5) key
                        else take (length key - 4) key);
            fs = (case map_of files_by_base base_key of
                    None \<Rightarrow> \<lparr>files_json = None, files_txt = None\<rparr>
                  | Some fs \<Rightarrow> fs)
        in if endswith key ''.json''
           then AList.update base_key (fs\<lparr>files_json := Some key\<rparr>) files_by_base
           else AList.update base_key (fs\<lparr>files_txt := Some key\<rparr>) files_by_base
      else files_by_base)"

text \<open>
  The loop over the pages of the paginator: fetching a page is a request that may raise;
  a page without \<open>'Contents'\<close> is skipped.
\<close>

fun paginate ::
  "string \<Rightarrow> string list option list \<Rightarrow> nat \<Rightarrow> (string \<times> files) list \<Rightarrow> world
     \<Rightarrow> (s3_error + (string \<times> files) list) \<times> world" where
  "paginate pfx [] i files_by_base w = (Inr files_by_base, w)"
| "paginate pfx (page # pages) i files_by_base w =
     (case s3_request (ListObjectsV2 pfx i) w of
        (Some e, w') \<Rightarrow> (Inl e, w')
      | (None, w') \<Rightarrow>
          (case page of
             None \<Rightarrow> paginate pfx pages (Suc i) files_by_base w'
           | Some contents \<Rightarrow>
               paginate pfx pages (Suc i)
                 (foldl (\<lambda>fbb key. record_key key fbb) files_by_base contents) w'))"

text \<open>The loop over \<open>files_by_base.items()\<close>.\<close>

fun complete_pairs :: "(string \<times> files) list \<Rightarrow> pair list \<Rightarrow> world \<Rightarrow> pair list \<times> world" where
  "complete_pairs [] pairs w = (pairs, w)"
| "complete_pairs ((base_key, fs) # rest) pairs w =
     (case (files_json fs, files_txt fs) of
        (Some j, Some t) \<Rightarrow> complete_pairs rest (pairs @ [(base_key, j, t)]) w
      | _ \<Rightarrow>
          (let missing = (if files_json fs \<noteq> None then ''txt'' else ''json'')
           in complete_pairs rest pairs (print (IncompletePair base_key missing) w)))"

definition discover_pairs :: "string \<Rightarrow> world \<Rightarrow> pair list \<times> world" where
  "discover_pairs pfx w =
     (case paginate pfx (listing w pfx) 0 [] w of
        (Inl e, w) \<Rightarrow> ([], print (DiscoveryFailed e) w)
      | (Inr files_by_base, w) \<Rightarrow>
          (case complete_pairs files_by_base [] w of
             (pairs, w) \<Rightarrow> (pairs, print (FoundPairs (length pairs) pfx) w)))"

section \<open>CNIngester.get\_object\_info\<close>

definition calculate_sha256 :: "pylib \<Rightarrow> bytes \<Rightarrow> string" where
  "calculate_sha256 lib content = sha256_hexdigest lib content"

definition get_object_info :: "pylib \<Rightarrow> string \<Rightarrow> world \<Rightarrow> object_info option \<times> world" where
  "get_object_info lib key w =
     (case head_object key w of
        (Inl e, w) \<Rightarrow> (None, print (ObjectInfoFailed key e) w)
      | (Inr response, w) \<Rightarrow>
          (case get_object key w of
             (Inl e, w) \<Rightarrow> (None, print (ObjectInfoFailed key e) w)
           | (Inr obj_response, w) \<Rightarrow>
               (Some \<lparr>info_key = key,
                       info_size_bytes = length (body response),
                       info_content_type =
                         (case content_type response of
                            None \<Rightarrow> ''application/octet-stream'' | Some t \<Rightarrow> t),
                       info_checksum = ''sha256:'' @ calculate_sha256 lib (body obj_response),
                       info_content = body obj_response\<rparr>, w)))"

section \<open>CNIngester.curate\_file\<close>

definition curation_tagging :: string where
  "curation_tagging = ''project=come-near&source=transcribe&schema_version=1''"

definition curated_content_type :: string where
  "curated_content_type = ''text/plain; charset=utf-8''"

text \<open>
  The write of the curated object and the final return: the tagged \<open>put_object\<close>, the
  untagged one when the tagged one raised a \<open>ClientError\<close> with code \<open>AccessDenied\<close> or
  \<open>InvalidTag\<close>; every other exception reaches the outer handler, which returns \<open>None\<close>.
\<close>

definition put_curated ::
  "pylib \<Rightarrow> string \<Rightarrow> string \<Rightarrow> bytes \<Rightarrow> world \<Rightarrow> curation_result option \<times> world" where
  "put_curated lib txt_key ckey normalized_bytes w =
     (let result = \<lparr>curated_key = ckey,
                     curated_size_bytes = length normalized_bytes,
                     curated_checksum = ''sha256:'' @ calculate_sha256 lib normalized_bytes\<rparr>
      in case put_object ckey normalized_bytes curated_content_type (Some curation_tagging) w of
           (Inr _, w) \<Rightarrow> (Some result, print (CuratedWritten ckey) w)
         | (Inl (ClientError code), w) \<Rightarrow>
             if code \<in> {''AccessDenied'', ''InvalidTag''} then
               (case put_object ckey normalized_bytes curated_content_type None
                       (print (TaggingDenied ckey) w) of
                  (Inr _, w) \<Rightarrow> (Some result, print (CuratedWritten ckey) w)
                | (Inl e, w) \<Rightarrow> (None, print (CurateFailed txt_key e) w))
             else (None, print (CurateFailed txt_key (ClientError code)) w)
         | (Inl e, w) \<Rightarrow> (None, print (CurateFailed txt_key e) w))"

definition curate_file ::
  "pylib \<Rightarrow> string \<Rightarrow> string \<Rightarrow> object_info \<Rightarrow> world \<Rightarrow> curation_result option \<times> world" where
  "curate_file lib base_key txt_key txt_info w =
     (let original_content = decode_utf8_replace lib (info_content txt_info);
          normalized_content = normalize_text lib (Str original_content);
          normalized_bytes = encode_utf8 lib normalized_content;
          base_name = basename base_key;
          ckey = ''curated/'' @ base_name @ ''.norm.txt''
      in case get_object ckey w of
           (Inr existing_obj, w) \<Rightarrow>
             (let existing_checksum = calculate_sha256 lib (body existing_obj);
                  new_checksum = calculate_sha256 lib normalized_bytes
              in if existing_checksum = new_checksum
                 then (Some \<lparr>curated_key = ckey,
                              curated_size_bytes = length normalized_bytes,
                              curated_checksum = ''sha256:'' @ new_checksum\<rparr>,
                       print (CuratedExists ckey) w)
                 else put_curated lib txt_key ckey normalized_bytes w)
         | (Inl (ClientError code), w) \<Rightarrow>
             if code \<noteq> ''NoSuchKey''
             then (None, print (CurateFailed txt_key (ClientError code)) w)
             else put_curated lib txt_key ckey normalized_bytes w
         | (Inl e, w) \<Rightarrow> (None, print (CurateFailed txt_key e) w))"

section \<open>CNIngester.write\_manifest\<close>

definition write_manifest :: "pylib \<Rightarrow> manifest_entry list \<Rightarrow> string \<Rightarrow> world \<Rightarrow> bool \<times> world" where
  "write_manifest lib es src_prefix w =
     (let now = clock w;
          w = tick w;
          d = now_date lib now;
          bid = ''ingest-'' @ str_replace ''+00:00'' ''Z'' (now_isoformat lib now);
          m = \<lparr>schema_version = 1,
                batch_id = bid,
                dt = d,
                source_bucket = bucket_name lib,
                source_prefix = src_prefix,
                ingester = [(''name'', ''parallax-ingester''), (''version'', ''0.1.0'')],
                entries = es\<rparr>;
          manifest_key = ''manifests/dt='' @ d @ ''/'' @ bid @ ''.json'';
          manifest_content = json_dumps lib m
      in case put_object manifest_key (encode_utf8 lib manifest_content)
                ''application/json'' None w of
           (Inl e, w) \<Rightarrow> (False, print (ManifestFailed e) w)
         | (Inr _, w) \<Rightarrow> (True, print (ManifestWritten manifest_key bid (length es)) w))"

section \<open>CNIngester.ingest and main\<close>

definition json_entry :: "object_info \<Rightarrow> manifest_entry" where
  "json_entry json_info =
     \<lparr>entry_key = info_key json_info,
      entry_type = ''aws_transcribe_json'',
      entry_size_bytes = info_size_bytes json_info,
      entry_checksum = info_checksum json_info,
      entry_content_type = info_content_type json_info,
      entry_pii = ''low'',
      entry_status = ''ingested'',
      entry_curation = None\<rparr>"

definition txt_entry :: "object_info \<Rightarrow> curation_result \<Rightarrow> manifest_entry" where
  "txt_entry txt_info curation =
     \<lparr>entry_key = info_key txt_info,
      entry_type = ''minutes_txt'',
      entry_size_bytes = info_size_bytes txt_info,
      entry_checksum = info_checksum txt_info,
      entry_content_type = info_content_type txt_info,
      entry_pii = ''low'',
      entry_status = ''ingested'',
      entry_curation = Some curation\<rparr>"

text \<open>The loop over the pairs, with \<open>manifest_entries\<close> and \<open>processed_count\<close>.\<close>

fun process_pairs ::
  "pylib \<Rightarrow> pair list \<Rightarrow> manifest_entry list \<Rightarrow> nat \<Rightarrow> world
     \<Rightarrow> manifest_entry list \<times> nat \<times> world" where
  "process_pairs lib [] manifest_entries processed_count w =
     (manifest_entries, processed_count, w)"
| "process_pairs lib ((base_key, json_key, txt_key) # pairs) manifest_entries processed_count w =
     (case get_object_info lib json_key (print (ProcessingPair (basename base_key)) w) of
        (json_info, w) \<Rightarrow>
     (case get_object_info lib txt_key w of
        (txt_info, w) \<Rightarrow>
     (case (json_info, txt_info) of
        (Some json_info, Some txt_info) \<Rightarrow>
          (case curate_file lib base_key txt_key txt_info w of
             (None, w) \<Rightarrow>
               process_pairs lib pairs manifest_entries processed_count
                 (print (CurationFailed base_key) w)
           | (Some curation, w) \<Rightarrow>
               process_pairs lib pairs
                 (manifest_entries @ [json_entry json_info, txt_entry txt_info curation])
                 (processed_count + 1)
                 (print Blank (print (Processed base_key) w)))
      | _ \<Rightarrow>
          process_pairs lib pairs manifest_entries processed_count
            (print (FileInfoFailed base_key) w))))"

definition ingest :: "pylib \<Rightarrow> string \<Rightarrow> world \<Rightarrow> bool \<times> world" where
  "ingest lib pfx w =
     (case health_check lib (print Blank (print (Banner (bucket_name lib) pfx) w)) of
        (False, w) \<Rightarrow> (False, w)
      | (True, w) \<Rightarrow>
          (case discover_pairs pfx (print Blank w) of
             (pairs, w) \<Rightarrow>
               if pairs = [] then (True, print NoPairs w)
               else
                 (case process_pairs lib pairs [] 0 (print Blank w) of
                    (manifest_entries, processed_count, w) \<Rightarrow>
                      if manifest_entries \<noteq> [] then
                        (case write_manifest lib manifest_entries pfx w of
                           (success, w) \<Rightarrow>
                             (success,
                              print (Summary processed_count (length manifest_entries) success)
                                (print Blank w)))
                      else (True, print NoEntries w))))"

text \<open>\<open>sys.exit(0 if success else 1)\<close>\<close>

definition main :: "pylib \<Rightarrow> string \<Rightarrow> world \<Rightarrow> nat \<times> world" where
  "main lib pfx w = (case ingest lib pfx w of (success, w) \<Rightarrow> (if success then 0 else 1, w))"

section \<open>A concrete library and store for examples\<close>

text \<open>
  The theorems below hold for every value of the library parameters. The examples run the
  model on one concrete choice: a UTF-8 codec for the one-, two- and three-byte forms
  (any other byte decodes to U+FFFD), a fragment of NFC whose only composition is
  U+0065 U+0301 to U+00E9, the general category \<open>Cf\<close> on the format characters of the
  Basic Multilingual Plane, the whitespace of \<open>str.strip()\<close>, and, in the place of
  SHA-256, the hexadecimal rendering of the content itself.
\<close>

definition continuation_byte :: "nat \<Rightarrow> bool" where
  "continuation_byte b \<longleftrightarrow> 0x80 \<le> b \<and> b < 0xC0"

fun utf8_decode_sample :: "nat list \<Rightarrow> ustring" where
  "utf8_decode_sample [] = []"
| "utf8_decode_sample (a # bs) =
     (if a < 0x80 then a # utf8_decode_sample bs
      else case bs of
        [] \<Rightarrow> [0xFFFD]
      | b # bs1 \<Rightarrow>
          if 0xC2 \<le> a \<and> a < 0xE0 \<and> continuation_byte b
          then ((a - 0xC0) * 0x40 + (b - 0x80)) # utf8_decode_sample bs1
          else (case bs1 of
             [] \<Rightarrow> 0xFFFD # utf8_decode_sample bs
           | c # bs2 \<Rightarrow>
               let v = (a - 0xE0) * 0x1000 + (b - 0x80) * 0x40 + (c - 0x80)
               in if 0xE0 \<le> a \<and> a < 0xF0 \<and> continuation_byte b \<and> continuation_byte c
                     \<and> 0x800 \<le> v \<and> \<not> (0xD800 \<le> v \<and> v < 0xE000)
                  then v # utf8_decode_sample bs2
                  else 0xFFFD # utf8_decode_sample bs))"

fun utf8_encode_sample :: "ustring \<Rightarrow> nat list" where
  "utf8_encode_sample [] = []"
| "utf8_encode_sample (c # cs) =
     (if c < 0x80 then [c]
      else if c < 0x800 then [0xC0 + c div 0x40, 0x80 + c mod 0x40]
      else [0xE0 + c div 0x1000, 0x80 + c div 0x40 mod 0x40, 0x80 + c mod 0x40])
     @ utf8_encode_sample cs"

fun nfc_sample :: "ustring \<Rightarrow> ustring" where
  "nfc_sample (a # b # cs) =
     (if a = 0x65 \<and> b = 0x301 then 0xE9 # nfc_sample cs else a # nfc_sample (b # cs))"
| "nfc_sample cs = cs"

definition category_sample :: "codepoint \<Rightarrow> string" where
  "category_sample c =
     (if c = 0xAD \<or> (0x600 \<le> c \<and> c \<le> 0x605) \<or> c = 0x61C \<or> c = 0x6DD \<or> c = 0x70F
         \<or> c = 0x180E \<or> (0x200B \<le> c \<and> c \<le> 0x200F) \<or> (0x202A \<le> c \<and> c \<le> 0x202E)
         \<or> (0x2060 \<le> c \<and> c \<le> 0x2064) \<or> (0x2066 \<le> c \<and> c \<le> 0x206F) \<or> c = 0xFEFF
         \<or> (0xFFF9 \<le> c \<and> c \<le> 0xFFFB)
      then ''Cf''
      else if c < 0x20 \<or> (0x7F \<le> c \<and> c < 0xA0) then ''Cc''
      else if c = 0x20 \<or> c = 0xA0 then ''Zs''
      else ''L*'')"

definition isspace_sample :: "codepoint \<Rightarrow> bool" where
  "isspace_sample c \<longleftrightarrow>
     (0x09 \<le> c \<and> c \<le> 0x0D) \<or> (0x1C \<le> c \<and> c \<le> 0x20) \<or> c = 0x85 \<or> c = 0xA0 \<or> c = 0x1680
       \<or> (0x2000 \<le> c \<and> c \<le> 0x200A) \<or> c = 0x2028 \<or> c = 0x2029 \<or> c = 0x202F \<or> c = 0x205F
       \<or> c = 0x3000"

definition hex_sample :: "bytes \<Rightarrow> string" where
  "hex_sample bs =
     concat (map (\<lambda>b. [''0123456789abcdef'' ! (unat b div 16),
                        ''0123456789abcdef'' ! (unat b mod 16)]) bs)"

definition lib_sample :: pylib where
  "lib_sample =
     \<lparr>decode_utf8_replace = (\<lambda>bs. utf8_decode_sample (map unat bs)),
      encode_utf8 = (\<lambda>s. map of_nat (utf8_encode_sample s)),
      normalize_NFC = nfc_sample,
      category = category_sample,
      isspace = isspace_sample,
      sha256_hexdigest = hex_sample,
      json_dumps = (\<lambda>m. map of_char (batch_id m)),
      now_isoformat = (\<lambda>n. ''2025-09-01T12:00:00+00:00''),
      now_date = (\<lambda>n. ''2025-09-01''),
      environ_PARTNER_BUCKET = None\<rparr>"

text \<open>The UTF-8 bytes of U+0065 U+200C U+0301: an \<open>e\<close>, a zero-width non-joiner, an acute.\<close>

definition zwnj_bytes :: bytes where
  "zwnj_bytes = [0x65, 0xE2, 0x80, 0x8C, 0xCC, 0x81]"

text \<open>The bytes of \<open>Hi  you\r\n\r\n\r\nBye\<close>, and ten bytes of a structured file.\<close>

definition minutes_bytes :: bytes where
  "minutes_bytes =
     [0x48, 0x69, 0x20, 0x20, 0x79, 0x6F, 0x75, 0x0D, 0x0A, 0x0D, 0x0A, 0x0D, 0x0A, 0x42, 0x79, 0x65]"

definition transcript_bytes :: bytes where
  "transcript_bytes = [0x7B, 0x22, 0x61, 0x22, 0x3A, 0x20, 0x31, 0x32, 0x33, 0x7D]"

definition minutes_info :: object_info where
  "minutes_info =
     \<lparr>info_key = ''uploads/m1.txt'',
      info_size_bytes = 16,
      info_content_type = ''text/plain'',
      info_checksum = ''sha256:'' @ hex_sample minutes_bytes,
      info_content = minutes_bytes\<rparr>"

text \<open>
  A store with one complete pair; the listing of \<open>uploads/\<close> also names a structured file
  without a text companion.
\<close>

definition store_sample :: world where
  "store_sample =
     \<lparr>objects =
        [''uploads/m1.json'' \<mapsto>
           \<lparr>body = transcript_bytes, content_type = Some ''application/json'', tagging = None\<rparr>,
         ''uploads/m1.txt'' \<mapsto>
           \<lparr>body = minutes_bytes, content_type = Some ''text/plain'', tagging = None\<rparr>],
      listing = (\<lambda>p. if p = ''uploads/''
                      then [Some [''uploads/m1.json'', ''uploads/m1.txt'', ''uploads/b.json'']]
                      else [None]),
      faults = [],
      calls = [],
      clock = 0,
      stdout = []\<rparr>"

section \<open>Notions used in the statements\<close>

text \<open>The keys that the pages of a listing name, in order.\<close>

definition listed_keys :: "string list option list \<Rightarrow> string list" where
  "listed_keys pages = concat (map (\<lambda>page. case page of None \<Rightarrow> [] | Some contents \<Rightarrow> contents) pages)"

text \<open>The service answers the next \<open>n\<close> requests.\<close>

definition served :: "nat \<Rightarrow> world \<Rightarrow> bool" where
  "served n w = list_all (\<lambda>f. f = None) (take n (faults w))"

text \<open>The lines printed between two worlds.\<close>

definition new_messages :: "world \<Rightarrow> world \<Rightarrow> message list" where
  "new_messages w w' = drop (length (stdout w)) (stdout w')"

text \<open>
  What \<open>files_by_base\<close> holds for a base key once the keys of a set have been recorded.
\<close>

definition expected :: "string set \<Rightarrow> string \<Rightarrow> files option" where
  "expected S b =
     (if b @ ''.json'' \<in> S \<or> b @ ''.txt'' \<in> S
      then Some \<lparr>files_json = (if b @ ''.json'' \<in> S then Some (b @ ''.json'') else None),
                 files_txt = (if b @ ''.txt'' \<in> S then Some (b @ ''.txt'') else None)\<rparr>
      else None)"

definition files_of :: "files option \<Rightarrow> files" where
  "files_of x = (case x of None \<Rightarrow> \<lparr>files_json = None, files_txt = None\<rparr> | Some fs \<Rightarrow> fs)"

text \<open>
  What one item of \<open>files_by_base\<close> adds to \<open>pairs\<close> and what it prints.
\<close>

definition pair_of :: "string \<times> files \<Rightarrow> pair list" where
  "pair_of item =
     (case (files_json (snd item), files_txt (snd item)) of
        (Some j, Some t) \<Rightarrow> [(fst item, j, t)]
      | _ \<Rightarrow> [])"

definition incomplete_of :: "string \<times> files \<Rightarrow> message list" where
  "incomplete_of item =
     (case (files_json (snd item), files_txt (snd item)) of
        (Some j, Some t) \<Rightarrow> []
      | _ \<Rightarrow> [IncompletePair (fst item)
                (if files_json (snd item) \<noteq> None then ''txt'' else ''json'')])"

text \<open>
  The key, the bytes and the result that \<open>curate_file\<close> derives from its arguments, and the
  two writes it may issue.
\<close>

definition curated_key_of :: "string \<Rightarrow> string" where
  "curated_key_of base_key = ''curated/'' @ basename base_key @ ''.norm.txt''"

definition normalized_bytes_of :: "pylib \<Rightarrow> object_info \<Rightarrow> bytes" where
  "normalized_bytes_of lib txt_info =
     encode_utf8 lib (normalize_text lib (Str (decode_utf8_replace lib (info_content txt_info))))"

definition curation_of :: "pylib \<Rightarrow> string \<Rightarrow> object_info \<Rightarrow> curation_result" where
  "curation_of lib base_key txt_info =
     \<lparr>curated_key = curated_key_of base_key,
      curated_size_bytes = length (normalized_bytes_of lib txt_info),
      curated_checksum = ''sha256:'' @ sha256_hexdigest lib (normalized_bytes_of lib txt_info)\<rparr>"

definition tagged_put :: "pylib \<Rightarrow> string \<Rightarrow> object_info \<Rightarrow> s3_call" where
  "tagged_put lib base_key txt_info =
     PutObject (curated_key_of base_key) (normalized_bytes_of lib txt_info)
       curated_content_type (Some curation_tagging)"

definition untagged_put :: "pylib \<Rightarrow> string \<Rightarrow> object_info \<Rightarrow> s3_call" where
  "untagged_put lib base_key txt_info =
     PutObject (curated_key_of base_key) (normalized_bytes_of lib txt_info)
       curated_content_type None"

text \<open>The requests issued between two worlds.\<close>

definition new_calls :: "world \<Rightarrow> world \<Rightarrow> s3_call list" where
  "new_calls w w' = drop (length (calls w)) (calls w')"

text \<open>
  What the sample library makes of the sample minutes, a second text file whose base key
  has the same final component in another directory, and two schedules on the sample
  store: the tagged write is rejected once, and the tagged write and the write without
  tags are both rejected.
\<close>

definition normalized_minutes_bytes :: bytes where
  "normalized_minutes_bytes = [0x48, 0x69, 0x20, 0x79, 0x6F, 0x75, 0x0A, 0x0A, 0x42, 0x79, 0x65]"

definition minutes_curation :: curation_result where
  "minutes_curation =
     \<lparr>curated_key = ''curated/m1.norm.txt'',
      curated_size_bytes = 11,
      curated_checksum = ''sha256:'' @ hex_sample normalized_minutes_bytes\<rparr>"

definition agenda_bytes :: bytes where
  "agenda_bytes = [0x42, 0x79, 0x65]"

definition agenda_info :: object_info where
  "agenda_info =
     \<lparr>info_key = ''archive/m1.txt'',
      info_size_bytes = 3,
      info_content_type = ''text/plain'',
      info_checksum = ''sha256:'' @ hex_sample agenda_bytes,
      info_content = agenda_bytes\<rparr>"

definition agenda_curation :: curation_result where
  "agenda_curation =
     \<lparr>curated_key = ''curated/m1.norm.txt'',
      curated_size_bytes = 3,
      curated_checksum = ''sha256:'' @ hex_sample agenda_bytes\<rparr>"

definition store_denied :: world where
  "store_denied = store_sample\<lparr>faults := [None, Some (ClientError ''AccessDenied'')]\<rparr>"

definition store_denied_twice :: world where
  "store_denied_twice =
     store_sample\<lparr>faults := [None, Some (ClientError ''AccessDenied''),
                              Some (ClientError ''AccessDenied'')]\<rparr>"

text \<open>
  A schedule on the sample store: the two requests of the health check are served and the
  request for the first page of the listing raises.
\<close>

definition store_timeout :: world where
  "store_timeout = store_sample\<lparr>faults := [None, None, Some (OtherError ''timeout'')]\<rparr>"

text \<open>
  The entries and the count collected so far, followed by what the pairs still to come add
  to them when they are processed from a given world.
\<close>

definition continued ::
  "pylib \<Rightarrow> pair list \<Rightarrow> manifest_entry list \<Rightarrow> nat \<Rightarrow> world
     \<Rightarrow> manifest_entry list \<times> nat \<times> world" where
  "continued lib pairs es n w =
     (case process_pairs lib pairs [] 0 w of (es', n', w') \<Rightarrow> (es @ es', n + n', w'))"

text \<open>What \<open>get_object_info\<close> returns for the structured file of the sample store.\<close>

definition transcript_info :: object_info where
  "transcript_info =
     \<lparr>info_key = ''uploads/m1.json'',
      info_size_bytes = 10,
      info_content_type = ''application/json'',
      info_checksum = ''sha256:'' @ hex_sample transcript_bytes,
      info_content = transcript_bytes\<rparr>"

section \<open>Properties\<close>

subsection \<open>The normalizer\<close>

lemma double_space_sublist: "double_space xs \<longleftrightarrow> sublist [SPACE, SPACE] xs"
  by (induction xs rule: double_space.induct) (auto simp: sublist_Cons_right)

lemma triple_newline_sublist: "triple_newline xs \<longleftrightarrow> sublist [LF, LF, LF] xs"
  by (induction xs rule: triple_newline.induct) (auto simp: sublist_Cons_right)

lemma strip_sublist: "sublist (strip lib s) s"
proof -
  have "prefix (rev (dropWhile (isspace lib) (rev (dropWhile (isspace lib) s)))) (dropWhile (isspace lib) s)"
    by (metis suffix_dropWhile suffix_to_prefix rev_rev_ident)
  then show ?thesis
    unfolding strip_def
    by (meson prefix_imp_sublist suffix_dropWhile suffix_imp_sublist sublist_order.order_trans)
qed

lemma strip_lstripped: "dropWhile (isspace lib) (strip lib s) = strip lib s"
proof (cases "strip lib s")
  case Nil
  then show ?thesis by simp
next
  case (Cons y ys)
  let ?z = "dropWhile (isspace lib) s"
  have p: "prefix (strip lib s) ?z"
    unfolding strip_def by (metis suffix_dropWhile suffix_to_prefix rev_rev_ident)
  with Cons obtain zs where z: "?z = y # zs"
    by (auto simp: prefix_def)
  have "\<not> isspace lib y"
    using hd_dropWhile [of "isspace lib" s] unfolding z by simp
  with Cons show ?thesis by simp
qed

lemma strip_rstripped: "dropWhile (isspace lib) (rev (strip lib s)) = rev (strip lib s)"
  by (simp add: strip_def)

lemma re_sub_spaces_hd: "re_sub_spaces (c # cs) = x # ys \<Longrightarrow> x = c"
  by (auto split: if_splits)

lemma re_sub_spaces_no_double: "\<not> double_space (re_sub_spaces xs)"
proof (induction xs rule: re_sub_spaces.induct)
  case 1
  then show ?case by simp
next
  case (2 c cs)
  show ?case
  proof (cases "c = SPACE")
    case True
    let ?r = "dropWhile (\<lambda>d. d = SPACE) cs"
    have ih: "\<not> double_space (re_sub_spaces ?r)" using 2 True by simp
    show ?thesis
    proof (cases ?r)
      case Nil
      have "re_sub_spaces (c # cs) = [SPACE]"
        unfolding re_sub_spaces.simps(2) Nil using True by simp
      then show ?thesis by simp
    next
      case (Cons d ds)
      have "d \<noteq> SPACE" using hd_dropWhile [of "\<lambda>d. d = SPACE" cs] unfolding Cons by simp
      moreover obtain ys where ys: "re_sub_spaces (d # ds) = d # ys"
        by (cases "d = SPACE") auto
      moreover have "re_sub_spaces (c # cs) = SPACE # re_sub_spaces (d # ds)"
        unfolding re_sub_spaces.simps(2) Cons using True by simp
      ultimately show ?thesis using ih unfolding Cons by simp
    qed
  next
    case False
    then have ih: "\<not> double_space (re_sub_spaces cs)" using 2 by simp
    show ?thesis
    proof (cases "re_sub_spaces cs")
      case Nil
      then show ?thesis using False by simp
    next
      case (Cons d ds)
      then show ?thesis using False ih by simp
    qed
  qed
qed

lemma replace_crlf_hd_space: "replace_crlf (b # cs) = x # ys \<Longrightarrow> x = SPACE \<longleftrightarrow> b = SPACE"
  by (cases cs) (auto split: if_splits)

lemma replace_crlf_Cons: "\<exists>x ys. replace_crlf (b # cs) = x # ys"
  by (cases cs) auto

lemma replace_crlf_double: "double_space (replace_crlf xs) \<Longrightarrow> double_space xs"
proof (induction xs rule: replace_crlf.induct)
  case (1 a b cs)
  show ?case
  proof (cases "a = CR \<and> b = LF")
    case True
    with 1 have "double_space (LF # replace_crlf cs)" by simp
    then have "double_space (replace_crlf cs)"
      by (cases "replace_crlf cs") auto
    with 1 True have "double_space cs" by simp
    then show ?thesis by (cases cs) auto
  next
    case False
    with 1 have d: "double_space (a # replace_crlf (b # cs))" by auto
    obtain x ys where r: "replace_crlf (b # cs) = x # ys"
      using replace_crlf_Cons by blast
    from d r have "(a = SPACE \<and> x = SPACE) \<or> double_space (replace_crlf (b # cs))" by simp
    then show ?thesis
    proof
      assume "a = SPACE \<and> x = SPACE"
      then show ?thesis using replace_crlf_hd_space [OF r] by simp
    next
      assume "double_space (replace_crlf (b # cs))"
      then show ?thesis using 1 False by auto
    qed
  qed
qed simp_all

lemma replace_cr_double: "double_space (replace_cr xs) \<Longrightarrow> double_space xs"
  unfolding replace_cr_def
  by (induction xs rule: double_space.induct) (auto split: if_splits)

lemma double_space_suffix: "suffix ys xs \<Longrightarrow> double_space ys \<Longrightarrow> double_space xs"
  unfolding double_space_sublist by (meson suffix_imp_sublist sublist_order.order_trans)

lemma re_sub_newlines_hd: "\<exists>ys. re_sub_newlines (b # cs) = b # ys"
  by (cases cs) auto

lemma re_sub_newlines_double: "double_space (re_sub_newlines xs) \<Longrightarrow> double_space xs"
proof (induction xs rule: re_sub_newlines.induct)
  case (1 a b cs)
  let ?r = "dropWhile (\<lambda>d. d = LF) cs"
  show ?case
  proof (cases "a = LF \<and> b = LF")
    case True
    with 1 have "double_space (LF # LF # re_sub_newlines ?r)" by simp
    then have "double_space (re_sub_newlines ?r)"
      by (cases "re_sub_newlines ?r") auto
    with 1 True have "double_space ?r" by simp
    then have "double_space cs" using double_space_suffix suffix_dropWhile by blast
    then show ?thesis by (cases cs) auto
  next
    case False
    with 1 have d: "double_space (a # re_sub_newlines (b # cs))" by auto
    obtain ys where r: "re_sub_newlines (b # cs) = b # ys"
      using re_sub_newlines_hd by blast
    from d r have "(a = SPACE \<and> b = SPACE) \<or> double_space (re_sub_newlines (b # cs))" by simp
    then show ?thesis using 1 False by auto
  qed
qed simp_all

lemma re_sub_newlines_no_triple: "\<not> triple_newline (re_sub_newlines xs)"
proof (induction xs rule: re_sub_newlines.induct)
  case (1 a b cs)
  let ?r = "dropWhile (\<lambda>d. d = LF) cs"
  show ?case
  proof (cases "a = LF \<and> b = LF")
    case True
    then have ih: "\<not> triple_newline (re_sub_newlines ?r)" using 1 by simp
    have eq: "re_sub_newlines (a # b # cs) = LF # LF # re_sub_newlines ?r"
      using True by simp
    show ?thesis
    proof (cases ?r)
      case Nil
      show ?thesis unfolding eq Nil by simp
    next
      case (Cons d ds)
      have "d \<noteq> LF" using hd_dropWhile [of "\<lambda>d. d = LF" cs] unfolding Cons by simp
      moreover obtain ys where "re_sub_newlines (d # ds) = d # ys"
        using re_sub_newlines_hd by blast
      ultimately show ?thesis using ih unfolding eq Cons by (cases ys) auto
    qed
  next
    case False
    then have ih: "\<not> triple_newline (re_sub_newlines (b # cs))" using 1 by simp
    have eq: "re_sub_newlines (a # b # cs) = a # re_sub_newlines (b # cs)"
      using False by auto
    obtain ys where r: "re_sub_newlines (b # cs) = b # ys"
      using re_sub_newlines_hd by blast
    show ?thesis using ih False unfolding eq r by (cases ys) auto
  qed
qed simp_all

lemma set_re_sub_spaces: "set (re_sub_spaces xs) \<subseteq> set xs"
  by (induction xs rule: re_sub_spaces.induct) (auto dest: set_dropWhileD)

lemma set_replace_crlf: "set (replace_crlf xs) \<subseteq> set xs"
  by (induction xs rule: replace_crlf.induct) auto

lemma set_re_sub_newlines: "set (re_sub_newlines xs) \<subseteq> set xs"
  by (induction xs rule: re_sub_newlines.induct) (auto dest: set_dropWhileD)

lemma set_strip: "set (strip lib xs) \<subseteq> set xs"
  using strip_sublist set_mono_sublist by blast

lemma set_replace_cr: "set (replace_cr xs) \<subseteq> (set xs - {CR}) \<union> {LF}"
  by (auto simp: replace_cr_def)

lemma re_sub_spaces_fix: "\<not> double_space xs \<Longrightarrow> re_sub_spaces xs = xs"
proof (induction xs)
  case Nil
  then show ?case by simp
next
  case (Cons c cs)
  then have ih: "re_sub_spaces cs = cs" by (cases cs) auto
  show ?case
  proof (cases "c = SPACE")
    case True
    with Cons.prems have "dropWhile (\<lambda>d. d = SPACE) cs = cs" by (cases cs) auto
    then show ?thesis using True ih by simp
  next
    case False
    then show ?thesis using ih by simp
  qed
qed

lemma replace_crlf_fix: "CR \<notin> set xs \<Longrightarrow> replace_crlf xs = xs"
  by (induction xs rule: replace_crlf.induct) auto

lemma replace_cr_fix: "CR \<notin> set xs \<Longrightarrow> replace_cr xs = xs"
  unfolding replace_cr_def by (induction xs) auto

lemma re_sub_newlines_fix: "\<not> triple_newline xs \<Longrightarrow> re_sub_newlines xs = xs"
proof (induction xs rule: re_sub_newlines.induct)
  case (1 a b cs)
  show ?case
  proof (cases "a = LF \<and> b = LF")
    case True
    with 1 have d: "dropWhile (\<lambda>d. d = LF) cs = cs" by (cases cs) auto
    have "\<not> triple_newline cs" using 1(3) by (cases cs rule: triple_newline.cases) auto
    with 1 True d have "re_sub_newlines cs = cs" by simp
    with True d show ?thesis by simp
  next
    case False
    have "\<not> triple_newline (b # cs)" using 1(3) by (cases cs) auto
    with 1 False have "re_sub_newlines (b # cs) = b # cs" by auto
    with False show ?thesis by auto
  qed
qed simp_all

lemma strip_fix:
  "dropWhile (isspace lib) xs = xs \<Longrightarrow> dropWhile (isspace lib) (rev xs) = rev xs \<Longrightarrow> strip lib xs = xs"
  by (simp add: strip_def)

lemma normalize_text_unfold:
  "normalize_text lib x =
     strip lib (re_sub_newlines (replace_cr (replace_crlf (re_sub_spaces (remove_Cf lib
       (lstrip_bom (normalize_NFC lib
          (case x of Bytes b \<Rightarrow> decode_utf8_replace lib b | Str s \<Rightarrow> s))))))))"
  by (simp add: normalize_text_def)

lemma normalize_text_no_CR: "CR \<notin> set (normalize_text lib x)"
proof
  assume "CR \<in> set (normalize_text lib x)"
  then obtain s where "CR \<in> set (strip lib (re_sub_newlines (replace_cr s)))"
    unfolding normalize_text_unfold by blast
  then have "CR \<in> set (re_sub_newlines (replace_cr s))"
    using set_strip by blast
  then have "CR \<in> set (replace_cr s)"
    using set_re_sub_newlines by blast
  then show False
    by (auto simp: replace_cr_def split: if_splits)
qed

lemma normalize_text_no_Cf:
  assumes "category lib LF \<noteq> ''Cf''" and "c \<in> set (normalize_text lib x)"
  shows "category lib c \<noteq> ''Cf''"
proof -
  let ?s = "remove_Cf lib (lstrip_bom (normalize_NFC lib
          (case x of Bytes b \<Rightarrow> decode_utf8_replace lib b | Str s \<Rightarrow> s)))"
  from assms(2) have "c \<in> set (replace_cr (replace_crlf (re_sub_spaces ?s)))"
    unfolding normalize_text_unfold using set_strip set_re_sub_newlines by fast
  then have "c = LF \<or> c \<in> set (replace_crlf (re_sub_spaces ?s))"
    using set_replace_cr by fast
  then have "c = LF \<or> c \<in> set ?s"
    using set_replace_crlf set_re_sub_spaces by fast
  then show ?thesis using assms(1) by (auto simp: remove_Cf_def)
qed

lemma normalize_text_no_double_space: "\<not> double_space (normalize_text lib x)"
proof
  assume "double_space (normalize_text lib x)"
  then have "double_space (re_sub_newlines (replace_cr (replace_crlf (re_sub_spaces (remove_Cf lib
       (lstrip_bom (normalize_NFC lib
          (case x of Bytes b \<Rightarrow> decode_utf8_replace lib b | Str s \<Rightarrow> s))))))))"
    unfolding normalize_text_unfold double_space_sublist
    using strip_sublist sublist_order.order_trans by blast
  then show False
    using re_sub_newlines_double replace_cr_double replace_crlf_double re_sub_spaces_no_double
    by blast
qed

lemma normalize_text_no_triple_newline: "\<not> triple_newline (normalize_text lib x)"
proof
  assume "triple_newline (normalize_text lib x)"
  then have "triple_newline (re_sub_newlines (replace_cr (replace_crlf (re_sub_spaces (remove_Cf lib
       (lstrip_bom (normalize_NFC lib
          (case x of Bytes b \<Rightarrow> decode_utf8_replace lib b | Str s \<Rightarrow> s))))))))"
    unfolding normalize_text_unfold triple_newline_sublist
    using strip_sublist sublist_order.order_trans by blast
  then show False
    using re_sub_newlines_no_triple by blast
qed

lemma normalize_text_stripped:
  "dropWhile (isspace lib) (normalize_text lib x) = normalize_text lib x"
  "dropWhile (isspace lib) (rev (normalize_text lib x)) = rev (normalize_text lib x)"
  unfolding normalize_text_unfold by (rule strip_lstripped, rule strip_rstripped)

text \<open>
  Claim C10. Whatever the input, the normalized string contains no carriage return, no
  code point of the general category \<open>Cf\<close>, no two consecutive spaces and no three
  consecutive newlines, and neither starts nor ends with whitespace. The newline that
  replaces a carriage return is not of category \<open>Cf\<close>: the one fact about the Unicode
  database that the statement relies on.
\<close>

theorem normalize_text_output_invariants:
  assumes "category lib LF \<noteq> ''Cf''"
  shows "CR \<notin> set (normalize_text lib x)
    \<and> (\<forall>c \<in> set (normalize_text lib x). category lib c \<noteq> ''Cf'')
    \<and> \<not> sublist [SPACE, SPACE] (normalize_text lib x)
    \<and> \<not> sublist [LF, LF, LF] (normalize_text lib x)
    \<and> (normalize_text lib x \<noteq> [] \<longrightarrow>
          \<not> isspace lib (hd (normalize_text lib x)) \<and> \<not> isspace lib (last (normalize_text lib x)))"
proof -
  let ?y = "normalize_text lib x"
  have "?y \<noteq> [] \<longrightarrow> \<not> isspace lib (hd ?y) \<and> \<not> isspace lib (last ?y)"
    using normalize_text_stripped [of lib x]
    by (auto simp: dropWhile_eq_self_iff hd_rev)
  then show ?thesis
    using normalize_text_no_CR normalize_text_no_Cf [OF assms]
      normalize_text_no_double_space normalize_text_no_triple_newline
    unfolding double_space_sublist triple_newline_sublist by blast
qed

text \<open>
  Claim C1, as amended. Take any input (bytes or text, empty or ill-formed) and its
  normalized output. Running the steps that follow the NFC step (the removal of the
  leading U+FEFF and of the \<open>Cf\<close> code points, the space, line-break and blank-line
  rewrites, the final strip) on that output returns it unchanged: this is the normalizer
  with the identity in the place of \<open>unicodedata.normalize\<close>. So a second run of the
  normalizer itself returns the output of the first whenever NFC leaves that output as it
  is. U+FEFF is of category \<open>Cf\<close> and the newline is not.
\<close>

theorem normalize_text_second_pass:
  assumes bom: "category lib BOM = ''Cf''"
      and lf: "category lib LF \<noteq> ''Cf''"
  shows "normalize_text (lib\<lparr>normalize_NFC := \<lambda>s. s\<rparr>) (Str (normalize_text lib x))
           = normalize_text lib x
    \<and> (normalize_NFC lib (normalize_text lib x) = normalize_text lib x \<longrightarrow>
         normalize_text lib (Str (normalize_text lib x)) = normalize_text lib x)"
proof -
  let ?y = "normalize_text lib x"
  let ?lib' = "lib\<lparr>normalize_NFC := \<lambda>s. s\<rparr>"
  have cf: "\<forall>c \<in> set ?y. category lib c \<noteq> ''Cf''"
    using normalize_text_no_Cf [OF lf] by blast
  have "?y = [] \<or> hd ?y \<noteq> BOM"
    using cf bom by (cases ?y) auto
  then have 1: "lstrip_bom ?y = ?y"
    by (simp add: lstrip_bom_def dropWhile_eq_self_iff)
  have 2: "remove_Cf lib ?y = ?y"
    using cf by (simp add: remove_Cf_def)
  have 3: "re_sub_spaces ?y = ?y"
    by (rule re_sub_spaces_fix [OF normalize_text_no_double_space])
  have 4: "replace_crlf ?y = ?y" "replace_cr ?y = ?y"
    by (rule replace_crlf_fix [OF normalize_text_no_CR], rule replace_cr_fix [OF normalize_text_no_CR])
  have 5: "re_sub_newlines ?y = ?y"
    by (rule re_sub_newlines_fix [OF normalize_text_no_triple_newline])
  have 6: "strip lib ?y = ?y"
    by (rule strip_fix [OF normalize_text_stripped])
  have steps: "strip lib (re_sub_newlines (replace_cr (replace_crlf (re_sub_spaces (remove_Cf lib
       (lstrip_bom ?y)))))) = ?y"
    by (simp only: 1 2 3 4 5 6)
  have "normalize_text ?lib' (Str ?y) =
      strip lib (re_sub_newlines (replace_cr (replace_crlf (re_sub_spaces (remove_Cf lib
       (lstrip_bom ?y))))))"
    by (simp add: normalize_text_unfold [of ?lib' "Str ?y"] strip_def remove_Cf_def)
  then have first: "normalize_text ?lib' (Str ?y) = ?y"
    by (simp only: steps)
  have second: "normalize_text lib (Str ?y) = ?y" if nfc: "normalize_NFC lib ?y = ?y"
  proof -
    have "normalize_text lib (Str ?y) =
        strip lib (re_sub_newlines (replace_cr (replace_crlf (re_sub_spaces (remove_Cf lib
         (lstrip_bom (normalize_NFC lib ?y)))))))"
      by (simp add: normalize_text_unfold [of lib "Str ?y"])
    then show ?thesis
      by (simp only: nfc steps)
  qed
  from first second show ?thesis by blast
qed

lemmas sample_simps = normalize_text_def lib_sample_def continuation_byte_def lstrip_bom_def
  remove_Cf_def category_sample_def replace_cr_def strip_def isspace_sample_def

lemma normalize_minutes:
  "normalize_text lib_sample (Bytes minutes_bytes) =
     [0x48, 0x69, 0x20, 0x79, 0x6F, 0x75, 0x0A, 0x0A, 0x42, 0x79, 0x65]"
  by (simp add: sample_simps minutes_bytes_def)

lemma normalize_zwnj: "normalize_text lib_sample (Bytes zwnj_bytes) = [0x65, 0x301]"
  by (simp add: sample_simps zwnj_bytes_def)

lemma normalize_e_acute: "normalize_text lib_sample (Str [0x65, 0x301]) = [0xE9]"
  by (simp add: sample_simps)

lemma category_sample_facts:
  "category lib_sample BOM = ''Cf''" "category lib_sample LF \<noteq> ''Cf''"
  by (simp_all add: lib_sample_def category_sample_def)

text \<open>The invariants of claim C10 on the sample minutes.\<close>

theorem normalize_text_output_invariants_witness:
  "category lib_sample LF \<noteq> ''Cf''
   \<and> normalize_text lib_sample (Bytes minutes_bytes)
       = [0x48, 0x69, 0x20, 0x79, 0x6F, 0x75, 0x0A, 0x0A, 0x42, 0x79, 0x65]
   \<and> CR \<notin> set (normalize_text lib_sample (Bytes minutes_bytes))
   \<and> filter (\<lambda>c. category lib_sample c = ''Cf'') (normalize_text lib_sample (Bytes minutes_bytes)) = []
   \<and> \<not> sublist [SPACE, SPACE] (normalize_text lib_sample (Bytes minutes_bytes))
   \<and> \<not> sublist [LF, LF, LF] (normalize_text lib_sample (Bytes minutes_bytes))
   \<and> \<not> isspace lib_sample (hd (normalize_text lib_sample (Bytes minutes_bytes)))
   \<and> \<not> isspace lib_sample (last (normalize_text lib_sample (Bytes minutes_bytes)))"
proof -
  have ne: "normalize_text lib_sample (Bytes minutes_bytes) \<noteq> []"
    by (simp add: normalize_minutes)
  have "filter (\<lambda>c. category lib_sample c = ''Cf'') (normalize_text lib_sample (Bytes minutes_bytes)) = []"
    using normalize_text_output_invariants [OF category_sample_facts(2), of "Bytes minutes_bytes"]
    by (simp add: filter_empty_conv)
  then show ?thesis
    using normalize_text_output_invariants [OF category_sample_facts(2), of "Bytes minutes_bytes"]
      category_sample_facts(2) ne normalize_minutes
    by blast
qed

text \<open>
  Claim C1, as stated, fails. NFC leaves U+0065 U+200C U+0301 alone, since the zero-width
  non-joiner stands between the letter and the accent; the filter then removes the
  non-joiner, and the second run composes the two code points that are now adjacent.
\<close>

theorem normalize_text_not_idempotent:
  "normalize_text lib_sample (Str (normalize_text lib_sample (Bytes zwnj_bytes)))
     \<noteq> normalize_text lib_sample (Bytes zwnj_bytes)"
  by (simp add: normalize_zwnj normalize_e_acute)

text \<open>
  The amended claim C1 on the sample minutes, whose normalized text NFC leaves alone, and
  on the text of the counterexample: there the steps after NFC still return the output of
  the first run, and it is the NFC step of the second run that changes it.
\<close>

theorem normalize_text_second_pass_witness:
  "category lib_sample BOM = ''Cf'' \<and> category lib_sample LF \<noteq> ''Cf''
   \<and> normalize_NFC lib_sample (normalize_text lib_sample (Bytes minutes_bytes))
       = normalize_text lib_sample (Bytes minutes_bytes)
   \<and> normalize_text (lib_sample\<lparr>normalize_NFC := \<lambda>s. s\<rparr>)
         (Str (normalize_text lib_sample (Bytes minutes_bytes)))
       = normalize_text lib_sample (Bytes minutes_bytes)
   \<and> normalize_text lib_sample (Str (normalize_text lib_sample (Bytes minutes_bytes)))
       = normalize_text lib_sample (Bytes minutes_bytes)
   \<and> normalize_text (lib_sample\<lparr>normalize_NFC := \<lambda>s. s\<rparr>)
         (Str (normalize_text lib_sample (Bytes zwnj_bytes)))
       = [0x65, 0x301]"
proof -
  have nfc: "normalize_NFC lib_sample (normalize_text lib_sample (Bytes minutes_bytes))
       = normalize_text lib_sample (Bytes minutes_bytes)"
    unfolding normalize_minutes by (simp add: lib_sample_def)
  have "normalize_text (lib_sample\<lparr>normalize_NFC := \<lambda>s. s\<rparr>)
         (Str (normalize_text lib_sample (Bytes zwnj_bytes)))
       = [0x65, 0x301]"
    using normalize_text_second_pass [OF category_sample_facts, of "Bytes zwnj_bytes"]
    by (simp only: normalize_zwnj)
  then show ?thesis
    using normalize_text_second_pass [OF category_sample_facts, of "Bytes minutes_bytes"]
      category_sample_facts nfc
    by blast
qed

subsection \<open>Pair discovery\<close>

lemma endswith_iff: "endswith s ext \<longleftrightarrow> (\<exists>b. s = b @ ext)"
proof
  assume "endswith s ext"
  then have "s = take (length s - length ext) s @ ext"
    unfolding endswith_def by (metis append_take_drop_id)
  then show "\<exists>b. s = b @ ext" ..
next
  assume "\<exists>b. s = b @ ext"
  then show "endswith s ext" by (auto simp: endswith_def)
qed

lemma json_not_txt: "b @ ''.json'' \<noteq> b' @ ''.txt''"
proof
  assume "b @ ''.json'' = b' @ ''.txt''"
  then have "last (b @ ''.json'') = last (b' @ ''.txt'')" by simp
  then show False by simp
qed

lemma record_key_json:
  "record_key (b @ ''.json'') fbb =
     AList.update b ((files_of (map_of fbb b))\<lparr>files_json := Some (b @ ''.json'')\<rparr>) fbb"
proof -
  have e: "endswith (b @ ''.json'') ''.json''" by (auto simp: endswith_iff)
  have t: "take (length (b @ ''.json'') - 5) (b @ ''.json'') = b" by simp
  show ?thesis
    unfolding record_key_def Let_def t files_of_def using e by simp
qed

lemma record_key_txt:
  "record_key (b @ ''.txt'') fbb =
     AList.update b ((files_of (map_of fbb b))\<lparr>files_txt := Some (b @ ''.txt'')\<rparr>) fbb"
proof -
  have e: "endswith (b @ ''.txt'') ''.txt''" "\<not> endswith (b @ ''.txt'') ''.json''"
    using json_not_txt by (auto simp: endswith_iff)
  have t: "take (length (b @ ''.txt'') - 4) (b @ ''.txt'') = b" by simp
  show ?thesis
    unfolding record_key_def Let_def t files_of_def using e by simp
qed

lemma record_key_other:
  "\<not> endswith k ''.json'' \<Longrightarrow> \<not> endswith k ''.txt'' \<Longrightarrow> record_key k fbb = fbb"
  by (simp add: record_key_def)

lemma expected_insert_json:
  "expected (insert (b @ ''.json'') S) =
     (expected S)(b \<mapsto> (files_of (expected S b))\<lparr>files_json := Some (b @ ''.json'')\<rparr>)"
proof -
  have m1: "x @ ''.json'' \<in> insert (b @ ''.json'') S \<longleftrightarrow> x = b \<or> x @ ''.json'' \<in> S" for x
    by auto
  have m2: "x @ ''.txt'' \<in> insert (b @ ''.json'') S \<longleftrightarrow> x @ ''.txt'' \<in> S" for x
    using json_not_txt [of b x] by auto
  show ?thesis
    unfolding expected_def m1 m2 files_of_def by (rule ext) simp
qed

lemma expected_insert_txt:
  "expected (insert (b @ ''.txt'') S) =
     (expected S)(b \<mapsto> (files_of (expected S b))\<lparr>files_txt := Some (b @ ''.txt'')\<rparr>)"
proof -
  have m1: "x @ ''.txt'' \<in> insert (b @ ''.txt'') S \<longleftrightarrow> x = b \<or> x @ ''.txt'' \<in> S" for x
    by auto
  have m2: "x @ ''.json'' \<in> insert (b @ ''.txt'') S \<longleftrightarrow> x @ ''.json'' \<in> S" for x
    using json_not_txt [of x b] by auto
  show ?thesis
    unfolding expected_def m1 m2 files_of_def by (rule ext) simp
qed

lemma expected_insert_other:
  assumes "\<not> endswith k ''.json''" "\<not> endswith k ''.txt''"
  shows "expected (insert k S) = expected S"
proof -
  have m1: "x @ ''.json'' \<in> insert k S \<longleftrightarrow> x @ ''.json'' \<in> S" for x
    using assms(1) by (auto simp: endswith_iff)
  have m2: "x @ ''.txt'' \<in> insert k S \<longleftrightarrow> x @ ''.txt'' \<in> S" for x
    using assms(2) by (auto simp: endswith_iff)
  show ?thesis unfolding expected_def m1 m2 ..
qed

lemma record_key_inv:
  assumes "distinct (map fst fbb)" and "map_of fbb = expected S"
  shows "distinct (map fst (record_key k fbb)) \<and> map_of (record_key k fbb) = expected (insert k S)"
proof -
  consider (j) b where "k = b @ ''.json''" | (t) b where "k = b @ ''.txt''"
    | (n) "\<not> endswith k ''.json''" "\<not> endswith k ''.txt''"
    using endswith_iff by blast
  then show ?thesis
  proof cases
    case j
    show ?thesis
      unfolding j record_key_json expected_insert_json update_conv' assms(2)
      using assms(1) by (simp add: distinct_update)
  next
    case t
    show ?thesis
      unfolding t record_key_txt expected_insert_txt update_conv' assms(2)
      using assms(1) by (simp add: distinct_update)
  next
    case n
    show ?thesis
      unfolding record_key_other [OF n] expected_insert_other [OF n] using assms by simp
  qed
qed

lemma foldl_record_key_inv:
  "distinct (map fst fbb) \<Longrightarrow> map_of fbb = expected S \<Longrightarrow>
   distinct (map fst (foldl (\<lambda>fbb key. record_key key fbb) fbb ks))
   \<and> map_of (foldl (\<lambda>fbb key. record_key key fbb) fbb ks) = expected (S \<union> set ks)"
proof (induction ks arbitrary: fbb S)
  case Nil
  then show ?case by simp
next
  case (Cons k ks)
  from record_key_inv [OF Cons.prems]
  have "distinct (map fst (record_key k fbb))" "map_of (record_key k fbb) = expected (insert k S)"
    by auto
  from Cons.IH [OF this] show ?case by simp
qed

lemma complete_pairs_eq:
  "complete_pairs fbb pairs w =
     (pairs @ concat (map pair_of fbb),
      w\<lparr>stdout := stdout w @ concat (map incomplete_of fbb)\<rparr>)"
proof (induction fbb arbitrary: pairs w)
  case Nil
  then show ?case by simp
next
  case (Cons item fbb)
  obtain b fs where item: "item = (b, fs)" by (cases item)
  show ?case
    unfolding item
    by (cases "files_json fs"; cases "files_txt fs")
       (simp_all add: Cons.IH pair_of_def incomplete_of_def print_def)
qed

lemma s3_request_served:
  assumes "served (Suc n) w"
  shows "\<exists>w'. s3_request c w = (None, w') \<and> served n w' \<and> stdout w' = stdout w
           \<and> objects w' = objects w \<and> listing w' = listing w"
proof (cases "faults w")
  case Nil
  then show ?thesis by (simp add: s3_request_def served_def)
next
  case (Cons f fs)
  with assms show ?thesis by (simp add: s3_request_def served_def)
qed

lemma paginate_served:
  "served (length pages) w \<Longrightarrow>
   \<exists>w'. paginate pfx pages i fbb w =
           (Inr (foldl (\<lambda>fbb key. record_key key fbb) fbb (listed_keys pages)), w')
        \<and> stdout w' = stdout w"
proof (induction pages arbitrary: i fbb w)
  case Nil
  then show ?case by (simp add: listed_keys_def)
next
  case (Cons page pages)
  then have "served (Suc (length pages)) w" by simp
  from s3_request_served [OF this, of "ListObjectsV2 pfx i"]
  obtain w1 where w1: "s3_request (ListObjectsV2 pfx i) w = (None, w1)"
    "served (length pages) w1" "stdout w1 = stdout w"
    by blast
  show ?case
  proof (cases page)
    case None
    from Cons.IH [OF w1(2), of "Suc i" fbb] show ?thesis
      using w1 None by (auto simp: listed_keys_def)
  next
    case (Some contents)
    from Cons.IH [OF w1(2), of "Suc i" "foldl (\<lambda>fbb key. record_key key fbb) fbb contents"]
    show ?thesis
      using w1 Some by (auto simp: listed_keys_def)
  qed
qed

lemma expected_empty: "map_of [] = expected {}"
  by (simp add: expected_def fun_eq_iff)

lemma discover_pairs_served:
  assumes "served (length (listing w pfx)) w"
  shows "\<exists>fbb. distinct (map fst fbb)
           \<and> map_of fbb = expected (set (listed_keys (listing w pfx)))
           \<and> fst (discover_pairs pfx w) = concat (map pair_of fbb)
           \<and> new_messages w (snd (discover_pairs pfx w)) =
               concat (map incomplete_of fbb) @ [FoundPairs (length (concat (map pair_of fbb))) pfx]"
proof -
  let ?fbb = "foldl (\<lambda>fbb key. record_key key fbb) [] (listed_keys (listing w pfx))"
  from paginate_served [OF assms, of pfx 0 "[]"]
  obtain w' where w': "paginate pfx (listing w pfx) 0 [] w = (Inr ?fbb, w')" "stdout w' = stdout w"
    by blast
  have inv: "distinct (map fst ?fbb)" "map_of ?fbb = expected (set (listed_keys (listing w pfx)))"
    using foldl_record_key_inv [of "[]" "{}" "listed_keys (listing w pfx)"] expected_empty
    by auto
  have "fst (discover_pairs pfx w) = concat (map pair_of ?fbb)"
    by (simp add: discover_pairs_def w' complete_pairs_eq)
  moreover have "new_messages w (snd (discover_pairs pfx w)) =
      concat (map incomplete_of ?fbb) @ [FoundPairs (length (concat (map pair_of ?fbb))) pfx]"
    by (simp add: discover_pairs_def w' complete_pairs_eq new_messages_def print_def)
  ultimately show ?thesis using inv by blast
qed

lemma pair_of_iff:
  "(b, j, t) \<in> set (concat (map pair_of fbb)) \<longleftrightarrow>
     (\<exists>fs. (b, fs) \<in> set fbb \<and> files_json fs = Some j \<and> files_txt fs = Some t)"
  by (induction fbb) (auto simp: pair_of_def split: option.splits)

lemma set_incomplete_of:
  "IncompletePair b m \<in> set (incomplete_of item) \<longleftrightarrow>
     fst item = b \<and> (files_json (snd item) = None \<or> files_txt (snd item) = None)
     \<and> m = (if files_json (snd item) \<noteq> None then ''txt'' else ''json'')"
proof -
  obtain x where x: "x = (if files_json (snd item) \<noteq> None then ''txt'' else ''json'')"
    by simp
  have "IncompletePair b m \<in> set (incomplete_of item) \<longleftrightarrow>
     fst item = b \<and> (files_json (snd item) = None \<or> files_txt (snd item) = None) \<and> m = x"
    unfolding incomplete_of_def x [symmetric]
    by (cases "files_json (snd item)"; cases "files_txt (snd item)") auto
  then show ?thesis unfolding x .
qed

lemma incomplete_of_iff:
  "IncompletePair b m \<in> set (concat (map incomplete_of fbb)) \<longleftrightarrow>
     (\<exists>fs. (b, fs) \<in> set fbb \<and> (files_json fs = None \<or> files_txt fs = None)
        \<and> m = (if files_json fs \<noteq> None then ''txt'' else ''json''))"
proof -
  have "IncompletePair b m \<in> set (concat (map incomplete_of fbb)) \<longleftrightarrow>
      (\<exists>item \<in> set fbb. IncompletePair b m \<in> set (incomplete_of item))"
    by simp
  also have "\<dots> \<longleftrightarrow> (\<exists>item \<in> set fbb. fst item = b
        \<and> (files_json (snd item) = None \<or> files_txt (snd item) = None)
        \<and> m = (if files_json (snd item) \<noteq> None then ''txt'' else ''json''))"
    unfolding set_incomplete_of ..
  also have "\<dots> \<longleftrightarrow> (\<exists>fs. (b, fs) \<in> set fbb \<and> (files_json fs = None \<or> files_txt fs = None)
        \<and> m = (if files_json fs \<noteq> None then ''txt'' else ''json''))"
    by (rule iffI; force)
  finally show ?thesis .
qed

lemma map_fst_pair_of:
  "map fst (concat (map pair_of fbb)) =
     map fst (filter (\<lambda>item. files_json (snd item) \<noteq> None \<and> files_txt (snd item) \<noteq> None) fbb)"
  by (induction fbb) (auto simp: pair_of_def split: option.splits)

lemma distinct_pair_of:
  "distinct (map fst fbb) \<Longrightarrow> distinct (map fst (concat (map pair_of fbb)))"
  unfolding map_fst_pair_of by (rule distinct_map_filter)

lemma expected_both:
  "(\<exists>fs. expected S b = Some fs \<and> files_json fs = Some j \<and> files_txt fs = Some t) \<longleftrightarrow>
     j = b @ ''.json'' \<and> t = b @ ''.txt'' \<and> j \<in> S \<and> t \<in> S"
  unfolding expected_def by (cases "b @ ''.json'' \<in> S"; cases "b @ ''.txt'' \<in> S") auto

lemma expected_one:
  "(\<exists>fs. expected S b = Some fs \<and> (files_json fs = None \<or> files_txt fs = None)
        \<and> m = (if files_json fs \<noteq> None then ''txt'' else ''json'')) \<longleftrightarrow>
     (b @ ''.json'' \<in> S \<and> b @ ''.txt'' \<notin> S \<and> m = ''txt'')
     \<or> (b @ ''.json'' \<notin> S \<and> b @ ''.txt'' \<in> S \<and> m = ''json'')"
  unfolding expected_def by (cases "b @ ''.json'' \<in> S"; cases "b @ ''.txt'' \<in> S") auto

text \<open>
  Claim C3. When the store serves the listing requests, a triple is among the discovered
  pairs exactly when its two keys are the base key with \<open>.json\<close> and with \<open>.txt\<close> and both
  are among the listed keys; a base key listed with only one of the two extensions is
  printed as incomplete, with the missing extension, and no base key occurs twice in the
  result.
\<close>

theorem discover_pairs_correct:
  assumes "served (length (listing w pfx)) w"
  shows "((base_key, j, t) \<in> set (fst (discover_pairs pfx w)) \<longleftrightarrow>
            j = base_key @ ''.json'' \<and> t = base_key @ ''.txt''
            \<and> j \<in> set (listed_keys (listing w pfx)) \<and> t \<in> set (listed_keys (listing w pfx)))
       \<and> (IncompletePair base_key m \<in> set (new_messages w (snd (discover_pairs pfx w))) \<longleftrightarrow>
            (base_key @ ''.json'' \<in> set (listed_keys (listing w pfx))
               \<and> base_key @ ''.txt'' \<notin> set (listed_keys (listing w pfx)) \<and> m = ''txt'')
          \<or> (base_key @ ''.json'' \<notin> set (listed_keys (listing w pfx))
               \<and> base_key @ ''.txt'' \<in> set (listed_keys (listing w pfx)) \<and> m = ''json''))
       \<and> distinct (map fst (fst (discover_pairs pfx w)))"
proof -
  let ?K = "set (listed_keys (listing w pfx))"
  from discover_pairs_served [OF assms]
  obtain fbb where fbb: "distinct (map fst fbb)" "map_of fbb = expected ?K"
    "fst (discover_pairs pfx w) = concat (map pair_of fbb)"
    "new_messages w (snd (discover_pairs pfx w)) =
       concat (map incomplete_of fbb) @ [FoundPairs (length (concat (map pair_of fbb))) pfx]"
    by blast
  have mem: "(b, fs) \<in> set fbb \<longleftrightarrow> expected ?K b = Some fs" for b fs
    using fbb(1,2) by (metis map_of_eq_Some_iff)
  have 1: "(base_key, j, t) \<in> set (fst (discover_pairs pfx w)) \<longleftrightarrow>
            j = base_key @ ''.json'' \<and> t = base_key @ ''.txt'' \<and> j \<in> ?K \<and> t \<in> ?K"
    unfolding fbb(3) pair_of_iff mem by (rule expected_both)
  have "IncompletePair base_key m \<in> set (new_messages w (snd (discover_pairs pfx w))) \<longleftrightarrow>
          IncompletePair base_key m \<in> set (concat (map incomplete_of fbb))"
    unfolding fbb(4) by (simp del: set_concat)
  then have 2: "IncompletePair base_key m \<in> set (new_messages w (snd (discover_pairs pfx w))) \<longleftrightarrow>
            (base_key @ ''.json'' \<in> ?K \<and> base_key @ ''.txt'' \<notin> ?K \<and> m = ''txt'')
          \<or> (base_key @ ''.json'' \<notin> ?K \<and> base_key @ ''.txt'' \<in> ?K \<and> m = ''json'')"
    unfolding incomplete_of_iff mem expected_one .
  have 3: "distinct (map fst (fst (discover_pairs pfx w)))"
    unfolding fbb(3) by (rule distinct_pair_of [OF fbb(1)])
  from 1 2 3 show ?thesis by blast
qed

lemma listed_keys_sample:
  "listed_keys (listing store_sample ''uploads/'') =
     [''uploads/m1.json'', ''uploads/m1.txt'', ''uploads/b.json'']"
  by (simp add: store_sample_def listed_keys_def)

lemma served_sample: "served n store_sample"
  by (simp add: served_def store_sample_def)

text \<open>
  Claim C3 on the sample store: \<open>m1\<close> is listed with both extensions and is a pair, \<open>b\<close> is
  listed with \<open>.json\<close> only, is no pair and is printed as missing its \<open>.txt\<close>.
\<close>

theorem discover_pairs_correct_witness:
  "served (length (listing store_sample ''uploads/'')) store_sample
   \<and> (''uploads/m1'', ''uploads/m1.json'', ''uploads/m1.txt'')
         \<in> set (fst (discover_pairs ''uploads/'' store_sample))
   \<and> (''uploads/b'', ''uploads/b.json'', ''uploads/b.txt'')
         \<notin> set (fst (discover_pairs ''uploads/'' store_sample))
   \<and> IncompletePair ''uploads/b'' ''txt''
         \<in> set (new_messages store_sample (snd (discover_pairs ''uploads/'' store_sample)))
   \<and> IncompletePair ''uploads/m1'' ''txt''
         \<notin> set (new_messages store_sample (snd (discover_pairs ''uploads/'' store_sample)))
   \<and> distinct (map fst (fst (discover_pairs ''uploads/'' store_sample)))"
proof -
  note s = served_sample [of "length (listing store_sample ''uploads/'')"]
  have 1: "(''uploads/m1'', ''uploads/m1.json'', ''uploads/m1.txt'')
         \<in> set (fst (discover_pairs ''uploads/'' store_sample))"
    using discover_pairs_correct [OF s, of "''uploads/m1''" "''uploads/m1.json''" "''uploads/m1.txt''"]
    unfolding listed_keys_sample by simp
  have 2: "(''uploads/b'', ''uploads/b.json'', ''uploads/b.txt'')
         \<notin> set (fst (discover_pairs ''uploads/'' store_sample))"
    using discover_pairs_correct [OF s, of "''uploads/b''" "''uploads/b.json''" "''uploads/b.txt''"]
    unfolding listed_keys_sample by simp
  have 3: "IncompletePair ''uploads/b'' ''txt''
         \<in> set (new_messages store_sample (snd (discover_pairs ''uploads/'' store_sample)))"
    using discover_pairs_correct [OF s, of "''uploads/b''" _ _ "''txt''"]
    unfolding listed_keys_sample by simp
  have 4: "IncompletePair ''uploads/m1'' ''txt''
         \<notin> set (new_messages store_sample (snd (discover_pairs ''uploads/'' store_sample)))"
    using discover_pairs_correct [OF s, of "''uploads/m1''" _ _ "''txt''"]
    unfolding listed_keys_sample by simp
  have 5: "distinct (map fst (fst (discover_pairs ''uploads/'' store_sample)))"
    using discover_pairs_correct [OF s] by blast
  from s 1 2 3 4 5 show ?thesis by blast
qed

subsection \<open>Requests\<close>

lemma s3_request_result:
  assumes "s3_request c w = (f, w')"
  shows "calls w' = calls w @ [c]" "stdout w' = stdout w" "objects w' = objects w"
    "listing w' = listing w" "clock w' = clock w" "faults w' = tl (faults w)"
    "f = (case faults w of [] \<Rightarrow> None | g # gs \<Rightarrow> g)"
  using assms by (auto simp: s3_request_def split: list.splits)

lemma put_object_result:
  assumes "put_object k b ctype tags w = (x, w')"
  shows "calls w' = calls w @ [PutObject k b ctype tags]" "stdout w' = stdout w"
    "listing w' = listing w" "clock w' = clock w" "faults w' = tl (faults w)"
    "case x of
       Inl e \<Rightarrow> objects w' = objects w \<and> take 1 (faults w) = [Some e]
     | Inr u \<Rightarrow> objects w' = (objects w)(k \<mapsto> \<lparr>body = b, content_type = Some ctype, tagging = tags\<rparr>)
               \<and> served 1 w"
proof -
  obtain f w1 where r: "s3_request (PutObject k b ctype tags) w = (f, w1)"
    by (cases "s3_request (PutObject k b ctype tags) w")
  note s = s3_request_result [OF r]
  show "calls w' = calls w @ [PutObject k b ctype tags]" "stdout w' = stdout w"
    "listing w' = listing w" "clock w' = clock w" "faults w' = tl (faults w)"
    using assms s(1-6) by (cases f; auto simp: put_object_def r)+
  show "case x of
       Inl e \<Rightarrow> objects w' = objects w \<and> take 1 (faults w) = [Some e]
     | Inr u \<Rightarrow> objects w' = (objects w)(k \<mapsto> \<lparr>body = b, content_type = Some ctype, tagging = tags\<rparr>)
               \<and> served 1 w"
    using assms s by (cases f; cases "faults w"; auto simp: put_object_def r served_def)
qed

lemma get_object_result:
  assumes "get_object k w = (x, w')"
  shows "calls w' = calls w @ [GetObject k]" "stdout w' = stdout w" "objects w' = objects w"
    "listing w' = listing w" "clock w' = clock w" "faults w' = tl (faults w)"
    "case x of
       Inl e \<Rightarrow> take 1 (faults w) = [Some e] \<or> (served 1 w \<and> objects w k = None \<and> e = ClientError ''NoSuchKey'')
     | Inr obj \<Rightarrow> served 1 w \<and> objects w k = Some obj"
proof -
  obtain f w1 where r: "s3_request (GetObject k) w = (f, w1)"
    by (cases "s3_request (GetObject k) w")
  note s = s3_request_result [OF r]
  show "calls w' = calls w @ [GetObject k]" "stdout w' = stdout w" "objects w' = objects w"
    "listing w' = listing w" "clock w' = clock w" "faults w' = tl (faults w)"
    using assms s(1-6) by (cases f; cases "objects w1 k"; auto simp: get_object_def r)+
  show "case x of
       Inl e \<Rightarrow> take 1 (faults w) = [Some e] \<or> (served 1 w \<and> objects w k = None \<and> e = ClientError ''NoSuchKey'')
     | Inr obj \<Rightarrow> served 1 w \<and> objects w k = Some obj"
    using assms s by (cases f; cases "faults w"; cases "objects w1 k"; auto simp: get_object_def r served_def)
qed

lemma print_simps [simp]:
  "calls (print m w) = calls w" "objects (print m w) = objects w" "faults (print m w) = faults w"
  "listing (print m w) = listing w" "clock (print m w) = clock w"
  "stdout (print m w) = stdout w @ [m]"
  by (simp_all add: print_def)

subsection \<open>Curation\<close>

lemma curate_file_unfold:
  "curate_file lib base_key txt_key txt_info w =
     (case get_object (curated_key_of base_key) w of
        (Inr existing_obj, w) \<Rightarrow>
          if sha256_hexdigest lib (body existing_obj)
               = sha256_hexdigest lib (normalized_bytes_of lib txt_info)
          then (Some (curation_of lib base_key txt_info),
                print (CuratedExists (curated_key_of base_key)) w)
          else put_curated lib txt_key (curated_key_of base_key) (normalized_bytes_of lib txt_info) w
      | (Inl (ClientError code), w) \<Rightarrow>
          if code \<noteq> ''NoSuchKey''
          then (None, print (CurateFailed txt_key (ClientError code)) w)
          else put_curated lib txt_key (curated_key_of base_key) (normalized_bytes_of lib txt_info) w
      | (Inl (OtherError x), w) \<Rightarrow> (None, print (CurateFailed txt_key (OtherError x)) w))"
  by (simp add: curate_file_def Let_def curated_key_of_def normalized_bytes_of_def
      curation_of_def calculate_sha256_def split: prod.splits sum.splits s3_error.splits)

text \<open>The four ways through the write of the curated object.\<close>

lemma put_curated_result:
  assumes "put_curated lib txt_key (curated_key_of base_key) (normalized_bytes_of lib txt_info) w
             = (r, w')"
  shows "(r = Some (curation_of lib base_key txt_info) \<and> served 1 w
           \<and> calls w' = calls w @ [tagged_put lib base_key txt_info]
           \<and> objects w' = (objects w)(curated_key_of base_key \<mapsto>
                \<lparr>body = normalized_bytes_of lib txt_info,
                 content_type = Some curated_content_type, tagging = Some curation_tagging\<rparr>)
           \<and> faults w' = tl (faults w))
       \<or> (\<exists>code. code \<in> {''AccessDenied'', ''InvalidTag''}
             \<and> take 1 (faults w) = [Some (ClientError code)] \<and> served 1 (w\<lparr>faults := tl (faults w)\<rparr>)
             \<and> r = Some (curation_of lib base_key txt_info)
             \<and> calls w' = calls w @ [tagged_put lib base_key txt_info, untagged_put lib base_key txt_info]
             \<and> objects w' = (objects w)(curated_key_of base_key \<mapsto>
                  \<lparr>body = normalized_bytes_of lib txt_info,
                   content_type = Some curated_content_type, tagging = None\<rparr>)
             \<and> faults w' = tl (tl (faults w)))
       \<or> (\<exists>code e. code \<in> {''AccessDenied'', ''InvalidTag''}
             \<and> take 2 (faults w) = [Some (ClientError code), Some e]
             \<and> r = None
             \<and> calls w' = calls w @ [tagged_put lib base_key txt_info, untagged_put lib base_key txt_info]
             \<and> objects w' = objects w \<and> faults w' = tl (tl (faults w)))
       \<or> (\<exists>e. take 1 (faults w) = [Some e]
             \<and> e \<notin> {ClientError ''AccessDenied'', ClientError ''InvalidTag''}
             \<and> r = None
             \<and> calls w' = calls w @ [tagged_put lib base_key txt_info]
             \<and> objects w' = objects w \<and> faults w' = tl (faults w))"
    (is "?A \<or> ?B \<or> ?C \<or> ?D")
proof -
  let ?k = "curated_key_of base_key" and ?nb = "normalized_bytes_of lib txt_info"
  obtain x w1 where p1: "put_object ?k ?nb curated_content_type (Some curation_tagging) w = (x, w1)"
    by (cases "put_object ?k ?nb curated_content_type (Some curation_tagging) w")
  note r1 = put_object_result [OF p1]
  have res: "\<lparr>curated_key = ?k, curated_size_bytes = length ?nb,
              curated_checksum = ''sha256:'' @ calculate_sha256 lib ?nb\<rparr>
             = curation_of lib base_key txt_info"
    by (simp add: curation_of_def calculate_sha256_def)
  show ?thesis
  proof (cases x)
    case (Inr u)
    with assms p1 res have "r = Some (curation_of lib base_key txt_info)"
      "w' = print (CuratedWritten ?k) w1"
      by (simp_all add: put_curated_def Let_def)
    with r1 Inr have ?A by (simp add: tagged_put_def)
    then show ?thesis ..
  next
    case (Inl e)
    with r1 have f1: "take 1 (faults w) = [Some e]" "objects w1 = objects w"
      "calls w1 = calls w @ [tagged_put lib base_key txt_info]" "faults w1 = tl (faults w)"
      by (simp_all add: tagged_put_def)
    show ?thesis
    proof (cases "e \<in> {ClientError ''AccessDenied'', ClientError ''InvalidTag''}")
      case False
      then have "put_curated lib txt_key ?k ?nb w = (None, print (CurateFailed txt_key e) w1)"
        using p1 Inl by (cases e) (simp_all add: put_curated_def Let_def)
      with assms have "r = None" "w' = print (CurateFailed txt_key e) w1" by simp_all
      with f1 False have ?D by simp
      then show ?thesis by blast
    next
      case True
      then obtain code where code: "e = ClientError code" "code \<in> {''AccessDenied'', ''InvalidTag''}"
        by auto
      let ?w2 = "print (TaggingDenied ?k) w1"
      obtain y w3 where p2: "put_object ?k ?nb curated_content_type None ?w2 = (y, w3)"
        by (cases "put_object ?k ?nb curated_content_type None ?w2")
      note r2 = put_object_result [OF p2]
      have eq: "put_curated lib txt_key ?k ?nb w =
          (case y of Inr u \<Rightarrow> (Some (curation_of lib base_key txt_info), print (CuratedWritten ?k) w3)
           | Inl e' \<Rightarrow> (None, print (CurateFailed txt_key e') w3))"
        using p1 Inl code p2 res by (simp add: put_curated_def Let_def split: sum.splits)
      have c2: "calls w3 = calls w @ [tagged_put lib base_key txt_info, untagged_put lib base_key txt_info]"
        "faults w3 = tl (tl (faults w))"
        using r2(1,5) f1(3,4) by (simp_all add: untagged_put_def)
      show ?thesis
      proof (cases y)
        case (Inr u)
        with eq assms have "r = Some (curation_of lib base_key txt_info)"
          "w' = print (CuratedWritten ?k) w3" by simp_all
        moreover from r2(6) Inr f1 have "served 1 (w\<lparr>faults := tl (faults w)\<rparr>)"
          "objects w3 = (objects w)(?k \<mapsto>
                  \<lparr>body = ?nb, content_type = Some curated_content_type, tagging = None\<rparr>)"
          by (simp_all add: served_def)
        ultimately have ?B using code f1(1) c2 by simp
        then show ?thesis by blast
      next
        case (Inl e')
        with eq assms have "r = None" "w' = print (CurateFailed txt_key e') w3" by simp_all
        moreover from r2(6) Inl f1 have "take 1 (tl (faults w)) = [Some e']" "objects w3 = objects w"
          by simp_all
        then have "take 2 (faults w) = [Some (ClientError code), Some e']" "objects w3 = objects w"
          using f1(1) code(1) by (cases "faults w"; simp)+
        ultimately have ?C using code c2 by simp
        then show ?thesis by blast
      qed
    qed
  qed
qed

text \<open>
  The three ways through the lookup of the curated object: the stored object has the
  digest of the normalized bytes, the lookup fails, or the write is reached.
\<close>

lemma curate_file_result:
  assumes "curate_file lib base_key txt_key txt_info w = (r, w')"
  shows "(served 1 w
           \<and> (\<exists>obj. objects w (curated_key_of base_key) = Some obj
                \<and> sha256_hexdigest lib (body obj)
                    = sha256_hexdigest lib (normalized_bytes_of lib txt_info))
           \<and> r = Some (curation_of lib base_key txt_info)
           \<and> calls w' = calls w @ [GetObject (curated_key_of base_key)]
           \<and> objects w' = objects w \<and> faults w' = tl (faults w))
       \<or> (\<exists>e. take 1 (faults w) = [Some e] \<and> e \<noteq> ClientError ''NoSuchKey''
             \<and> r = None
             \<and> calls w' = calls w @ [GetObject (curated_key_of base_key)]
             \<and> objects w' = objects w \<and> faults w' = tl (faults w))
       \<or> (\<exists>w0. (take 1 (faults w) = [Some (ClientError ''NoSuchKey'')]
                  \<or> served 1 w
                    \<and> map_option (\<lambda>obj. sha256_hexdigest lib (body obj))
                           (objects w (curated_key_of base_key))
                        \<noteq> Some (sha256_hexdigest lib (normalized_bytes_of lib txt_info)))
             \<and> calls w0 = calls w @ [GetObject (curated_key_of base_key)]
             \<and> objects w0 = objects w \<and> faults w0 = tl (faults w)
             \<and> put_curated lib txt_key (curated_key_of base_key)
                   (normalized_bytes_of lib txt_info) w0 = (r, w'))"
    (is "?S \<or> ?F \<or> ?W")
proof -
  let ?k = "curated_key_of base_key" and ?nb = "normalized_bytes_of lib txt_info"
  obtain x w0 where g: "get_object ?k w = (x, w0)"
    by (cases "get_object ?k w")
  note r0 = get_object_result [OF g]
  show ?thesis
  proof (cases x)
    case (Inr obj)
    with r0 have o: "served 1 w" "objects w ?k = Some obj" by simp_all
    show ?thesis
    proof (cases "sha256_hexdigest lib (body obj) = sha256_hexdigest lib ?nb")
      case True
      with assms g Inr have "r = Some (curation_of lib base_key txt_info)"
        "w' = print (CuratedExists ?k) w0"
        by (simp_all add: curate_file_unfold)
      with r0(1,3,6) o True have ?S by simp
      then show ?thesis ..
    next
      case False
      with assms g Inr have "put_curated lib txt_key ?k ?nb w0 = (r, w')"
        by (simp add: curate_file_unfold)
      with r0(1,3,6) o False have ?W by auto
      then show ?thesis by blast
    qed
  next
    case (Inl e)
    with r0 have e: "take 1 (faults w) = [Some e]
        \<or> (served 1 w \<and> objects w ?k = None \<and> e = ClientError ''NoSuchKey'')"
      by simp
    show ?thesis
    proof (cases "e = ClientError ''NoSuchKey''")
      case True
      with assms g Inl have "put_curated lib txt_key ?k ?nb w0 = (r, w')"
        by (simp add: curate_file_unfold)
      moreover from e True have "take 1 (faults w) = [Some (ClientError ''NoSuchKey'')]
                  \<or> served 1 w
                    \<and> map_option (\<lambda>obj. sha256_hexdigest lib (body obj)) (objects w ?k)
                        \<noteq> Some (sha256_hexdigest lib ?nb)"
        by auto
      ultimately have ?W using r0(1,3,6) by blast
      then show ?thesis by blast
    next
      case False
      with assms g Inl have "r = None" "w' = print (CurateFailed txt_key e) w0"
        by (cases e; simp add: curate_file_unfold)+
      with r0(1,3,6) e False have ?F by simp
      then show ?thesis by blast
    qed
  qed
qed

text \<open>What a successful curation leaves in the store.\<close>

lemma curate_file_success:
  assumes "curate_file lib base_key txt_key txt_info w = (Some r, w')"
  shows "r = curation_of lib base_key txt_info"
    and "\<exists>obj. objects w' (curated_key_of base_key) = Some obj
           \<and> sha256_hexdigest lib (body obj)
               = sha256_hexdigest lib (normalized_bytes_of lib txt_info)
           \<and> (body obj = normalized_bytes_of lib txt_info
              \<or> objects w' = objects w \<and> calls w' = calls w @ [GetObject (curated_key_of base_key)])"
    and "\<exists>puts. calls w' = calls w @ GetObject (curated_key_of base_key) # puts
           \<and> puts \<in> {[], [tagged_put lib base_key txt_info],
                       [tagged_put lib base_key txt_info, untagged_put lib base_key txt_info]}"
proof -
  from curate_file_result [OF assms]
  consider (S) "served 1 w"
      "\<exists>obj. objects w (curated_key_of base_key) = Some obj
                \<and> sha256_hexdigest lib (body obj)
                    = sha256_hexdigest lib (normalized_bytes_of lib txt_info)"
      "Some r = Some (curation_of lib base_key txt_info)"
      "calls w' = calls w @ [GetObject (curated_key_of base_key)]" "objects w' = objects w"
    | (W) w0 where "calls w0 = calls w @ [GetObject (curated_key_of base_key)]"
      "objects w0 = objects w"
      "put_curated lib txt_key (curated_key_of base_key)
                   (normalized_bytes_of lib txt_info) w0 = (Some r, w')"
    by blast
  then have "r = curation_of lib base_key txt_info
    \<and> (\<exists>obj. objects w' (curated_key_of base_key) = Some obj
           \<and> sha256_hexdigest lib (body obj)
               = sha256_hexdigest lib (normalized_bytes_of lib txt_info)
           \<and> (body obj = normalized_bytes_of lib txt_info
              \<or> objects w' = objects w \<and> calls w' = calls w @ [GetObject (curated_key_of base_key)]))
    \<and> (\<exists>puts. calls w' = calls w @ GetObject (curated_key_of base_key) # puts
           \<and> puts \<in> {[], [tagged_put lib base_key txt_info],
                       [tagged_put lib base_key txt_info, untagged_put lib base_key txt_info]})"
  proof cases
    case S
    then show ?thesis by auto
  next
    case W
    from put_curated_result [OF W(3)] W(1,2) show ?thesis by auto
  qed
  then show "r = curation_of lib base_key txt_info"
    and "\<exists>obj. objects w' (curated_key_of base_key) = Some obj
           \<and> sha256_hexdigest lib (body obj)
               = sha256_hexdigest lib (normalized_bytes_of lib txt_info)
           \<and> (body obj = normalized_bytes_of lib txt_info
              \<or> objects w' = objects w \<and> calls w' = calls w @ [GetObject (curated_key_of base_key)])"
    and "\<exists>puts. calls w' = calls w @ GetObject (curated_key_of base_key) # puts
           \<and> puts \<in> {[], [tagged_put lib base_key txt_info],
                       [tagged_put lib base_key txt_info, untagged_put lib base_key txt_info]}"
    by blast+
qed

text \<open>The runs of \<open>curate_file\<close> under the schedules used in the examples.\<close>

lemma new_calls_append [simp]: "calls w' = calls w @ cs \<Longrightarrow> new_calls w w' = cs"
  by (simp add: new_calls_def)


lemma curate_file_reaches_write:
  assumes "map_option (\<lambda>obj. sha256_hexdigest lib (body obj)) (objects w (curated_key_of base_key))
             \<noteq> Some (sha256_hexdigest lib (normalized_bytes_of lib txt_info))"
      and "served 1 w"
      and "curate_file lib base_key txt_key txt_info w = (r, w')"
  shows "\<exists>w0. calls w0 = calls w @ [GetObject (curated_key_of base_key)]
           \<and> objects w0 = objects w \<and> faults w0 = tl (faults w)
           \<and> put_curated lib txt_key (curated_key_of base_key)
                 (normalized_bytes_of lib txt_info) w0 = (r, w')"
proof -
  have "take 1 (faults w) \<noteq> [Some e]" for e
    using assms(2) by (cases "faults w") (auto simp: served_def)
  with curate_file_result [OF assms(3)] assms(1) show ?thesis
    by auto
qed

lemma curate_file_unhindered:
  assumes "map_option (\<lambda>obj. sha256_hexdigest lib (body obj)) (objects w (curated_key_of base_key))
             \<noteq> Some (sha256_hexdigest lib (normalized_bytes_of lib txt_info))"
      and "faults w = []"
  shows "fst (curate_file lib base_key txt_key txt_info w) = Some (curation_of lib base_key txt_info)"
    and "calls (snd (curate_file lib base_key txt_key txt_info w))
           = calls w @ [GetObject (curated_key_of base_key), tagged_put lib base_key txt_info]"
    and "objects (snd (curate_file lib base_key txt_key txt_info w))
           = (objects w)(curated_key_of base_key \<mapsto>
                \<lparr>body = normalized_bytes_of lib txt_info,
                 content_type = Some curated_content_type, tagging = Some curation_tagging\<rparr>)"
    and "faults (snd (curate_file lib base_key txt_key txt_info w)) = []"
proof -
  obtain r w' where c: "curate_file lib base_key txt_key txt_info w = (r, w')"
    by (cases "curate_file lib base_key txt_key txt_info w")
  have s: "served 1 w" using assms(2) by (simp add: served_def)
  from curate_file_reaches_write [OF assms(1) s c] assms(2)
  obtain w0 where w0: "calls w0 = calls w @ [GetObject (curated_key_of base_key)]"
    "objects w0 = objects w" "faults w0 = []"
    "put_curated lib txt_key (curated_key_of base_key) (normalized_bytes_of lib txt_info) w0 = (r, w')"
    by auto
  from put_curated_result [OF w0(4)] w0(1,2,3)
  have "r = Some (curation_of lib base_key txt_info)
      \<and> calls w' = calls w @ [GetObject (curated_key_of base_key), tagged_put lib base_key txt_info]
      \<and> objects w' = (objects w)(curated_key_of base_key \<mapsto>
                \<lparr>body = normalized_bytes_of lib txt_info,
                 content_type = Some curated_content_type, tagging = Some curation_tagging\<rparr>)
      \<and> faults w' = []"
    by auto
  then show "fst (curate_file lib base_key txt_key txt_info w) = Some (curation_of lib base_key txt_info)"
    and "calls (snd (curate_file lib base_key txt_key txt_info w))
           = calls w @ [GetObject (curated_key_of base_key), tagged_put lib base_key txt_info]"
    and "objects (snd (curate_file lib base_key txt_key txt_info w))
           = (objects w)(curated_key_of base_key \<mapsto>
                \<lparr>body = normalized_bytes_of lib txt_info,
                 content_type = Some curated_content_type, tagging = Some curation_tagging\<rparr>)"
    and "faults (snd (curate_file lib base_key txt_key txt_info w)) = []"
    by (simp_all add: c)
qed

text \<open>The tagged write is rejected: what the write without tags decides.\<close>

lemma curate_file_rejected:
  assumes "map_option (\<lambda>obj. sha256_hexdigest lib (body obj)) (objects w (curated_key_of base_key))
             \<noteq> Some (sha256_hexdigest lib (normalized_bytes_of lib txt_info))"
      and "faults w = None # Some e # fs"
  shows "e \<in> {ClientError ''AccessDenied'', ClientError ''InvalidTag''} \<Longrightarrow>
           calls (snd (curate_file lib base_key txt_key txt_info w))
             = calls w @ [GetObject (curated_key_of base_key), tagged_put lib base_key txt_info,
                          untagged_put lib base_key txt_info]
           \<and> fst (curate_file lib base_key txt_key txt_info w)
               = (case fs of Some e' # gs \<Rightarrow> None | _ \<Rightarrow> Some (curation_of lib base_key txt_info))
           \<and> faults (snd (curate_file lib base_key txt_key txt_info w)) = tl fs
           \<and> objects (snd (curate_file lib base_key txt_key txt_info w))
               = (case fs of Some e' # gs \<Rightarrow> objects w
                  | _ \<Rightarrow> (objects w)(curated_key_of base_key \<mapsto>
                      \<lparr>body = normalized_bytes_of lib txt_info,
                       content_type = Some curated_content_type, tagging = None\<rparr>))"
    and "e \<notin> {ClientError ''AccessDenied'', ClientError ''InvalidTag''} \<Longrightarrow>
           calls (snd (curate_file lib base_key txt_key txt_info w))
             = calls w @ [GetObject (curated_key_of base_key), tagged_put lib base_key txt_info]
           \<and> fst (curate_file lib base_key txt_key txt_info w) = None
           \<and> objects (snd (curate_file lib base_key txt_key txt_info w)) = objects w"
proof -
  obtain r w' where c: "curate_file lib base_key txt_key txt_info w = (r, w')"
    by (cases "curate_file lib base_key txt_key txt_info w")
  have s: "served 1 w" using assms(2) by (simp add: served_def)
  from curate_file_reaches_write [OF assms(1) s c] assms(2)
  obtain w0 where w0: "calls w0 = calls w @ [GetObject (curated_key_of base_key)]"
    "objects w0 = objects w" "faults w0 = Some e # fs"
    "put_curated lib txt_key (curated_key_of base_key) (normalized_bytes_of lib txt_info) w0 = (r, w')"
    by auto
  note p = put_curated_result [OF w0(4)]
  have ns: "\<not> served 1 w0" using w0(3) by (simp add: served_def)
  {
    assume e: "e \<in> {ClientError ''AccessDenied'', ClientError ''InvalidTag''}"
    have "calls w' = calls w @ [GetObject (curated_key_of base_key), tagged_put lib base_key txt_info,
                          untagged_put lib base_key txt_info]
           \<and> r = (case fs of Some e' # gs \<Rightarrow> None | _ \<Rightarrow> Some (curation_of lib base_key txt_info))
           \<and> faults w' = tl fs
           \<and> objects w' = (case fs of Some e' # gs \<Rightarrow> objects w
                  | _ \<Rightarrow> (objects w)(curated_key_of base_key \<mapsto>
                      \<lparr>body = normalized_bytes_of lib txt_info,
                       content_type = Some curated_content_type, tagging = None\<rparr>))"
      using p ns e w0(1,2,3)
      by (cases fs; cases "hd fs") (auto simp: served_def)
    then show "calls (snd (curate_file lib base_key txt_key txt_info w))
             = calls w @ [GetObject (curated_key_of base_key), tagged_put lib base_key txt_info,
                          untagged_put lib base_key txt_info]
           \<and> fst (curate_file lib base_key txt_key txt_info w)
               = (case fs of Some e' # gs \<Rightarrow> None | _ \<Rightarrow> Some (curation_of lib base_key txt_info))
           \<and> faults (snd (curate_file lib base_key txt_key txt_info w)) = tl fs
           \<and> objects (snd (curate_file lib base_key txt_key txt_info w))
               = (case fs of Some e' # gs \<Rightarrow> objects w
                  | _ \<Rightarrow> (objects w)(curated_key_of base_key \<mapsto>
                      \<lparr>body = normalized_bytes_of lib txt_info,
                       content_type = Some curated_content_type, tagging = None\<rparr>))"
      by (simp add: c)
  }
  {
    assume e: "e \<notin> {ClientError ''AccessDenied'', ClientError ''InvalidTag''}"
    have "calls w' = calls w @ [GetObject (curated_key_of base_key), tagged_put lib base_key txt_info]
           \<and> r = None \<and> objects w' = objects w"
      using p ns e w0(1,2,3) by auto
    then show "calls (snd (curate_file lib base_key txt_key txt_info w))
             = calls w @ [GetObject (curated_key_of base_key), tagged_put lib base_key txt_info]
           \<and> fst (curate_file lib base_key txt_key txt_info w) = None
           \<and> objects (snd (curate_file lib base_key txt_key txt_info w)) = objects w"
      by (simp add: c)
  }
qed

lemma curation_of_simps [simp]:
  "curated_key (curation_of lib base_key txt_info) = curated_key_of base_key"
  "curated_checksum (curation_of lib base_key txt_info)
     = ''sha256:'' @ sha256_hexdigest lib (normalized_bytes_of lib txt_info)"
  "curated_size_bytes (curation_of lib base_key txt_info) = length (normalized_bytes_of lib txt_info)"
  by (simp_all add: curation_of_def)

text \<open>
  Claim C4. When a curation succeeds, the store holds an object at the curated key of
  the result, and the checksum of the result is \<open>sha256:\<close> followed by the digest of the
  bytes of that object. Those bytes are the normalized bytes, written by this run, or the
  run issued the lookup only and left the objects as they were. This holds for any digest
  function.
\<close>

theorem curate_file_checksum_integrity:
  assumes "curate_file lib base_key txt_key txt_info w = (Some r, w')"
  shows "\<exists>obj. objects w' (curated_key r) = Some obj
           \<and> curated_checksum r = ''sha256:'' @ calculate_sha256 lib (body obj)
           \<and> (body obj = normalized_bytes_of lib txt_info
              \<or> objects w' = objects w \<and> new_calls w w' = [GetObject (curated_key r)])"
proof -
  note s = curate_file_success [OF assms]
  from s(2) obtain obj where obj: "objects w' (curated_key_of base_key) = Some obj"
    "sha256_hexdigest lib (body obj) = sha256_hexdigest lib (normalized_bytes_of lib txt_info)"
    "body obj = normalized_bytes_of lib txt_info
       \<or> objects w' = objects w \<and> calls w' = calls w @ [GetObject (curated_key_of base_key)]"
    by blast
  from obj(3) have "body obj = normalized_bytes_of lib txt_info
       \<or> objects w' = objects w \<and> new_calls w w' = [GetObject (curated_key_of base_key)]"
    by auto
  with obj(1,2) show ?thesis
    unfolding s(1) by (simp add: calculate_sha256_def)
qed

text \<open>
  Claim C9. The curated key of a result is \<open>curated/\<close>, the final path component of the
  base key and \<open>.norm.txt\<close>. So when two base keys have the same final component and the
  curations of both succeed, one after the other, both results name the same key: the
  first run leaves an object there, and the second either leaves the objects as they were,
  having issued the lookup only, or replaces the bytes of that object by its own
  normalized bytes.
\<close>

theorem curate_file_key_collision:
  assumes "basename base_key1 = basename base_key2"
      and "curate_file lib base_key1 txt_key1 txt_info1 w = (Some r1, w1)"
      and "curate_file lib base_key2 txt_key2 txt_info2 w1 = (Some r2, w2)"
  shows "curated_key r1 = ''curated/'' @ basename base_key1 @ ''.norm.txt''
       \<and> curated_key r2 = curated_key r1
       \<and> objects w1 (curated_key r1) \<noteq> None
       \<and> (objects w2 = objects w1 \<and> new_calls w1 w2 = [GetObject (curated_key r1)]
          \<or> map_option body (objects w2 (curated_key r1)) = Some (normalized_bytes_of lib txt_info2))"
proof -
  note s1 = curate_file_success [OF assms(2)] and s2 = curate_file_success [OF assms(3)]
  have k: "curated_key_of base_key2 = curated_key_of base_key1"
    using assms(1) by (simp add: curated_key_of_def)
  have 1: "curated_key r1 = ''curated/'' @ basename base_key1 @ ''.norm.txt''"
    unfolding s1(1) by (simp add: curated_key_of_def)
  have 2: "curated_key r2 = curated_key r1"
    unfolding s1(1) s2(1) by (simp add: k)
  have 3: "objects w1 (curated_key r1) \<noteq> None"
    using s1(2) unfolding s1(1) by auto
  from s2(2) obtain obj where obj: "objects w2 (curated_key_of base_key1) = Some obj"
    "body obj = normalized_bytes_of lib txt_info2
       \<or> objects w2 = objects w1 \<and> calls w2 = calls w1 @ [GetObject (curated_key_of base_key1)]"
    unfolding k by blast
  then have 4: "objects w2 = objects w1 \<and> new_calls w1 w2 = [GetObject (curated_key r1)]
          \<or> map_option body (objects w2 (curated_key r1)) = Some (normalized_bytes_of lib txt_info2)"
    unfolding s1(1) by auto
  from 1 2 3 4 show ?thesis by blast
qed

text \<open>
  Claim C7, as amended. The lookup of the curated object is served and finds no object
  with the digest of the normalized bytes, and the tagged write raises \<open>e\<close>. If \<open>e\<close> is a
  \<open>ClientError\<close> with code \<open>AccessDenied\<close> or \<open>InvalidTag\<close>, the write is issued once more,
  without tags, and no further request follows; the curation returns its result unless
  that second write raises too, and then it returns nothing. For any other \<open>e\<close> no second
  write is issued and the curation returns nothing.
\<close>

theorem curate_file_tagging_degradation:
  assumes "map_option (\<lambda>obj. sha256_hexdigest lib (body obj)) (objects w (curated_key_of base_key))
             \<noteq> Some (sha256_hexdigest lib (normalized_bytes_of lib txt_info))"
      and "faults w = None # Some e # fs"
  shows "(e \<in> {ClientError ''AccessDenied'', ClientError ''InvalidTag''} \<longrightarrow>
            new_calls w (snd (curate_file lib base_key txt_key txt_info w))
              = [GetObject (curated_key_of base_key), tagged_put lib base_key txt_info,
                 untagged_put lib base_key txt_info]
            \<and> fst (curate_file lib base_key txt_key txt_info w)
                = (case fs of Some e' # gs \<Rightarrow> None | _ \<Rightarrow> Some (curation_of lib base_key txt_info)))
       \<and> (e \<notin> {ClientError ''AccessDenied'', ClientError ''InvalidTag''} \<longrightarrow>
            new_calls w (snd (curate_file lib base_key txt_key txt_info w))
              = [GetObject (curated_key_of base_key), tagged_put lib base_key txt_info]
            \<and> fst (curate_file lib base_key txt_key txt_info w) = None)"
  using curate_file_rejected [OF assms, of txt_key] by simp


subsection \<open>The curation of the sample minutes\<close>

lemma basename_samples: "basename ''uploads/m1'' = ''m1''" "basename ''archive/m1'' = ''m1''"
  by (simp_all add: basename_def)

lemma curated_key_of_samples:
  "curated_key_of ''uploads/m1'' = ''curated/m1.norm.txt''"
  "curated_key_of ''archive/m1'' = ''curated/m1.norm.txt''"
  by (simp_all add: curated_key_of_def basename_samples)

lemma normalized_bytes_minutes: "normalized_bytes_of lib_sample minutes_info = normalized_minutes_bytes"
proof -
  have "normalize_text lib_sample (Str (decode_utf8_replace lib_sample minutes_bytes))
      = normalize_text lib_sample (Bytes minutes_bytes)"
    by (simp add: normalize_text_def)
  then show ?thesis
    unfolding normalized_bytes_of_def normalize_minutes
    by (simp add: minutes_info_def normalize_minutes normalized_minutes_bytes_def lib_sample_def)
qed

lemma normalized_bytes_agenda: "normalized_bytes_of lib_sample agenda_info = agenda_bytes"
  by (simp add: normalized_bytes_of_def agenda_info_def agenda_bytes_def sample_simps)

lemma sha256_sample [simp]: "sha256_hexdigest lib_sample = hex_sample"
  by (simp add: lib_sample_def)

lemma curation_of_minutes: "curation_of lib_sample ''uploads/m1'' minutes_info = minutes_curation"
  by (simp add: curation_of_def curated_key_of_samples normalized_bytes_minutes minutes_curation_def
      normalized_minutes_bytes_def)

lemma curation_of_agenda: "curation_of lib_sample ''archive/m1'' agenda_info = agenda_curation"
  by (simp add: curation_of_def curated_key_of_samples normalized_bytes_agenda agenda_curation_def
      agenda_bytes_def)

lemma hex_sample_differ: "hex_sample normalized_minutes_bytes \<noteq> hex_sample agenda_bytes"
  by (simp add: hex_sample_def normalized_minutes_bytes_def agenda_bytes_def)

lemma store_sample_facts:
  "objects store_sample ''curated/m1.norm.txt'' = None" "faults store_sample = []"
  "calls store_sample = []"
  by (simp_all add: store_sample_def)

lemma store_denied_facts:
  "objects store_denied ''curated/m1.norm.txt'' = None"
  "faults store_denied = [None, Some (ClientError ''AccessDenied'')]"
  "calls store_denied = []"
  by (simp_all add: store_denied_def store_sample_def)

lemma store_denied_twice_facts:
  "objects store_denied_twice ''curated/m1.norm.txt'' = None"
  "faults store_denied_twice = [None, Some (ClientError ''AccessDenied''),
                                Some (ClientError ''AccessDenied'')]"
  "calls store_denied_twice = []"
  by (simp_all add: store_denied_twice_def store_sample_def)

lemma tagged_put_minutes:
  "tagged_put lib_sample ''uploads/m1'' minutes_info =
     PutObject ''curated/m1.norm.txt'' normalized_minutes_bytes curated_content_type
       (Some curation_tagging)"
  "untagged_put lib_sample ''uploads/m1'' minutes_info =
     PutObject ''curated/m1.norm.txt'' normalized_minutes_bytes curated_content_type None"
  by (simp_all add: tagged_put_def untagged_put_def curated_key_of_samples normalized_bytes_minutes)

text \<open>The first curation of the sample minutes on the sample store.\<close>

lemma first_run:
  "fst (curate_file lib_sample ''uploads/m1'' ''uploads/m1.txt'' minutes_info store_sample)
     = Some minutes_curation"
  "calls (snd (curate_file lib_sample ''uploads/m1'' ''uploads/m1.txt'' minutes_info store_sample))
     = [GetObject ''curated/m1.norm.txt'',
        PutObject ''curated/m1.norm.txt'' normalized_minutes_bytes curated_content_type
          (Some curation_tagging)]"
  "objects (snd (curate_file lib_sample ''uploads/m1'' ''uploads/m1.txt'' minutes_info store_sample))
     = (objects store_sample)(''curated/m1.norm.txt'' \<mapsto>
          \<lparr>body = normalized_minutes_bytes, content_type = Some curated_content_type,
           tagging = Some curation_tagging\<rparr>)"
  "faults (snd (curate_file lib_sample ''uploads/m1'' ''uploads/m1.txt'' minutes_info store_sample)) = []"
proof -
  have h: "map_option (\<lambda>obj. sha256_hexdigest lib_sample (body obj))
             (objects store_sample (curated_key_of ''uploads/m1''))
           \<noteq> Some (sha256_hexdigest lib_sample (normalized_bytes_of lib_sample minutes_info))"
    by (simp add: curated_key_of_samples store_sample_facts)
  note u = curate_file_unhindered [OF h store_sample_facts(2), of "''uploads/m1.txt''",
      unfolded curated_key_of_samples normalized_bytes_minutes curation_of_minutes
        tagged_put_minutes store_sample_facts(3)]
  from u show
    "fst (curate_file lib_sample ''uploads/m1'' ''uploads/m1.txt'' minutes_info store_sample)
     = Some minutes_curation"
  "calls (snd (curate_file lib_sample ''uploads/m1'' ''uploads/m1.txt'' minutes_info store_sample))
     = [GetObject ''curated/m1.norm.txt'',
        PutObject ''curated/m1.norm.txt'' normalized_minutes_bytes curated_content_type
          (Some curation_tagging)]"
  "objects (snd (curate_file lib_sample ''uploads/m1'' ''uploads/m1.txt'' minutes_info store_sample))
     = (objects store_sample)(''curated/m1.norm.txt'' \<mapsto>
          \<lparr>body = normalized_minutes_bytes, content_type = Some curated_content_type,
           tagging = Some curation_tagging\<rparr>)"
  "faults (snd (curate_file lib_sample ''uploads/m1'' ''uploads/m1.txt'' minutes_info store_sample)) = []"
    by simp_all
qed

text \<open>
  Claim C4 on the sample minutes: the run writes the normalized bytes, and the checksum
  of the result is the digest of the bytes stored.
\<close>

theorem curate_file_checksum_integrity_witness:
  "curate_file lib_sample ''uploads/m1'' ''uploads/m1.txt'' minutes_info store_sample
     = (Some minutes_curation,
        snd (curate_file lib_sample ''uploads/m1'' ''uploads/m1.txt'' minutes_info store_sample))
   \<and> map_option body
        (objects (snd (curate_file lib_sample ''uploads/m1'' ''uploads/m1.txt'' minutes_info
                         store_sample)) ''curated/m1.norm.txt'')
       = Some normalized_minutes_bytes
   \<and> curated_checksum minutes_curation
       = ''sha256:'' @ calculate_sha256 lib_sample normalized_minutes_bytes"
proof -
  let ?run = "curate_file lib_sample ''uploads/m1'' ''uploads/m1.txt'' minutes_info store_sample"
  have eq: "?run = (Some minutes_curation, snd ?run)"
    using first_run(1) by (simp add: prod_eq_iff)
  have k: "curated_key minutes_curation = ''curated/m1.norm.txt''"
    by (simp add: minutes_curation_def)
  from curate_file_checksum_integrity [OF eq]
  obtain obj where obj: "objects (snd ?run) ''curated/m1.norm.txt'' = Some obj"
    "curated_checksum minutes_curation = ''sha256:'' @ calculate_sha256 lib_sample (body obj)"
    "body obj = normalized_minutes_bytes \<or> objects (snd ?run) = objects store_sample"
    unfolding k normalized_bytes_minutes by blast
  from obj(1,3) store_sample_facts(1) have "body obj = normalized_minutes_bytes"
    by auto
  with obj(1,2) eq show ?thesis by simp
qed

text \<open>
  Claim C9 on two base keys that end in \<open>m1\<close>: the curation of \<open>archive/m1\<close> replaces the
  object that the curation of \<open>uploads/m1\<close> has written.
\<close>

theorem curate_file_key_collision_witness:
  "basename ''uploads/m1'' = basename ''archive/m1''
   \<and> curate_file lib_sample ''uploads/m1'' ''uploads/m1.txt'' minutes_info store_sample
       = (Some minutes_curation,
          snd (curate_file lib_sample ''uploads/m1'' ''uploads/m1.txt'' minutes_info store_sample))
   \<and> curate_file lib_sample ''archive/m1'' ''archive/m1.txt'' agenda_info
         (snd (curate_file lib_sample ''uploads/m1'' ''uploads/m1.txt'' minutes_info store_sample))
       = (Some agenda_curation,
          snd (curate_file lib_sample ''archive/m1'' ''archive/m1.txt'' agenda_info
                 (snd (curate_file lib_sample ''uploads/m1'' ''uploads/m1.txt'' minutes_info
                         store_sample))))
   \<and> curated_key minutes_curation = ''curated/m1.norm.txt''
   \<and> curated_key agenda_curation = ''curated/m1.norm.txt''
   \<and> map_option body
        (objects (snd (curate_file lib_sample ''uploads/m1'' ''uploads/m1.txt'' minutes_info
                         store_sample)) ''curated/m1.norm.txt'')
       = Some normalized_minutes_bytes
   \<and> map_option body
        (objects (snd (curate_file lib_sample ''archive/m1'' ''archive/m1.txt'' agenda_info
                 (snd (curate_file lib_sample ''uploads/m1'' ''uploads/m1.txt'' minutes_info
                         store_sample)))) ''curated/m1.norm.txt'')
       = Some agenda_bytes"
proof -
  let ?w1 = "snd (curate_file lib_sample ''uploads/m1'' ''uploads/m1.txt'' minutes_info store_sample)"
  let ?run2 = "curate_file lib_sample ''archive/m1'' ''archive/m1.txt'' agenda_info ?w1"
  have b: "basename ''uploads/m1'' = basename ''archive/m1''"
    by (simp add: basename_samples)
  have eq1: "curate_file lib_sample ''uploads/m1'' ''uploads/m1.txt'' minutes_info store_sample
      = (Some minutes_curation, ?w1)"
    using first_run(1) by (simp add: prod_eq_iff)
  have h: "map_option (\<lambda>obj. sha256_hexdigest lib_sample (body obj))
             (objects ?w1 (curated_key_of ''archive/m1''))
           \<noteq> Some (sha256_hexdigest lib_sample (normalized_bytes_of lib_sample agenda_info))"
    unfolding curated_key_of_samples normalized_bytes_agenda first_run(3)
    using hex_sample_differ by simp
  note u = curate_file_unhindered [OF h first_run(4), of "''archive/m1.txt''",
      unfolded curation_of_agenda]
  have eq2: "?run2 = (Some agenda_curation, snd ?run2)"
    using u(1) by (simp add: prod_eq_iff)
  have c: "new_calls ?w1 (snd ?run2) \<noteq> [GetObject ''curated/m1.norm.txt'']"
    using u(2) by simp
  have k: "curated_key minutes_curation = ''curated/m1.norm.txt''"
    "curated_key agenda_curation = ''curated/m1.norm.txt''"
    by (simp_all add: minutes_curation_def agenda_curation_def)
  have o1: "map_option body (objects ?w1 ''curated/m1.norm.txt'') = Some normalized_minutes_bytes"
    unfolding first_run(3) by simp
  from curate_file_key_collision [OF b eq1 eq2] c
  have "map_option body (objects (snd ?run2) ''curated/m1.norm.txt'') = Some agenda_bytes"
    unfolding k normalized_bytes_agenda by blast
  with b eq1 eq2 k o1 show ?thesis by blast
qed

text \<open>
  Claim C7, as amended, on the sample minutes: the tagged write is rejected with
  \<open>AccessDenied\<close>, the write without tags is served, and the curation returns its result.
\<close>

theorem curate_file_tagging_degradation_witness:
  "objects store_denied ''curated/m1.norm.txt'' = None
   \<and> faults store_denied = [None, Some (ClientError ''AccessDenied'')]
   \<and> new_calls store_denied
        (snd (curate_file lib_sample ''uploads/m1'' ''uploads/m1.txt'' minutes_info store_denied))
       = [GetObject ''curated/m1.norm.txt'',
          PutObject ''curated/m1.norm.txt'' normalized_minutes_bytes curated_content_type
            (Some curation_tagging),
          PutObject ''curated/m1.norm.txt'' normalized_minutes_bytes curated_content_type None]
   \<and> fst (curate_file lib_sample ''uploads/m1'' ''uploads/m1.txt'' minutes_info store_denied)
       = Some minutes_curation"
proof -
  have h: "map_option (\<lambda>obj. sha256_hexdigest lib_sample (body obj))
             (objects store_denied (curated_key_of ''uploads/m1''))
           \<noteq> Some (sha256_hexdigest lib_sample (normalized_bytes_of lib_sample minutes_info))"
    by (simp add: curated_key_of_samples store_denied_facts)
  from curate_file_tagging_degradation [OF h store_denied_facts(2), of "''uploads/m1.txt''"]
  have "new_calls store_denied
        (snd (curate_file lib_sample ''uploads/m1'' ''uploads/m1.txt'' minutes_info store_denied))
       = [GetObject ''curated/m1.norm.txt'',
          PutObject ''curated/m1.norm.txt'' normalized_minutes_bytes curated_content_type
            (Some curation_tagging),
          PutObject ''curated/m1.norm.txt'' normalized_minutes_bytes curated_content_type None]
   \<and> fst (curate_file lib_sample ''uploads/m1'' ''uploads/m1.txt'' minutes_info store_denied)
       = Some minutes_curation"
    unfolding curated_key_of_samples curation_of_minutes tagged_put_minutes by simp
  with store_denied_facts(1,2) show ?thesis by blast
qed

text \<open>
  Claim C7, as stated, fails. The tagged write is rejected with \<open>AccessDenied\<close>, the one
  write without tags is rejected with \<open>AccessDenied\<close> too, and the curation returns
  nothing: the rejection reaches the caller as a failed curation.
\<close>

theorem curate_file_tagging_rejection_surfaces:
  "faults store_denied_twice
     = [None, Some (ClientError ''AccessDenied''), Some (ClientError ''AccessDenied'')]
   \<and> calls (snd (curate_file lib_sample ''uploads/m1'' ''uploads/m1.txt'' minutes_info
                    store_denied_twice))
       = [GetObject ''curated/m1.norm.txt'',
          PutObject ''curated/m1.norm.txt'' normalized_minutes_bytes curated_content_type
            (Some curation_tagging),
          PutObject ''curated/m1.norm.txt'' normalized_minutes_bytes curated_content_type None]
   \<and> fst (curate_file lib_sample ''uploads/m1'' ''uploads/m1.txt'' minutes_info store_denied_twice)
       = None"
proof -
  have h: "map_option (\<lambda>obj. sha256_hexdigest lib_sample (body obj))
             (objects store_denied_twice (curated_key_of ''uploads/m1''))
           \<noteq> Some (sha256_hexdigest lib_sample (normalized_bytes_of lib_sample minutes_info))"
    by (simp add: curated_key_of_samples store_denied_twice_facts)
  from curate_file_rejected(1) [OF h store_denied_twice_facts(2), of "''uploads/m1.txt''"]
  have "calls (snd (curate_file lib_sample ''uploads/m1'' ''uploads/m1.txt'' minutes_info
                    store_denied_twice))
       = [GetObject ''curated/m1.norm.txt'',
          PutObject ''curated/m1.norm.txt'' normalized_minutes_bytes curated_content_type
            (Some curation_tagging),
          PutObject ''curated/m1.norm.txt'' normalized_minutes_bytes curated_content_type None]
   \<and> fst (curate_file lib_sample ''uploads/m1'' ''uploads/m1.txt'' minutes_info store_denied_twice)
       = None"
    unfolding curated_key_of_samples tagged_put_minutes store_denied_twice_facts(3) by simp
  with store_denied_twice_facts(2) show ?thesis by blast
qed




subsection \<open>The run\<close>

lemma head_bucket_result:
  assumes "head_bucket w = (x, w')"
  shows "calls w' = calls w @ [HeadBucket]" "stdout w' = stdout w" "objects w' = objects w"
    "listing w' = listing w" "clock w' = clock w" "faults w' = tl (faults w)"
    "case x of Inl e \<Rightarrow> take 1 (faults w) = [Some e] | Inr u \<Rightarrow> served 1 w"
proof -
  obtain f w1 where r: "s3_request HeadBucket w = (f, w1)"
    by (cases "s3_request HeadBucket w")
  note s = s3_request_result [OF r]
  show "calls w' = calls w @ [HeadBucket]" "stdout w' = stdout w" "objects w' = objects w"
    "listing w' = listing w" "clock w' = clock w" "faults w' = tl (faults w)"
    using assms s(1-6) by (cases f; auto simp: head_bucket_def r)+
  show "case x of Inl e \<Rightarrow> take 1 (faults w) = [Some e] | Inr u \<Rightarrow> served 1 w"
    using assms s by (cases f; cases "faults w"; auto simp: head_bucket_def r served_def)
qed

lemma tick_simps [simp]:
  "calls (tick w) = calls w" "objects (tick w) = objects w" "faults (tick w) = faults w"
  "listing (tick w) = listing w" "stdout (tick w) = stdout w"
  by (simp_all add: tick_def)

text \<open>A health check that passes has issued its two requests and stored its one object.\<close>

lemma health_check_passed:
  assumes "health_check lib w = (True, w')"
  shows "\<exists>b. calls w' = calls w @ [HeadBucket, PutObject health_key b ''text/plain'' None]
           \<and> objects w' = (objects w)(health_key \<mapsto>
                \<lparr>body = b, content_type = Some ''text/plain'', tagging = None\<rparr>)"
    and "listing w' = listing w" and "faults w' = tl (tl (faults w))"
    and "stdout w' = stdout w @ [BucketVerified, HealthWritten health_key]"
proof -
  obtain x w1 where h: "head_bucket w = (x, w1)" by (cases "head_bucket w")
  note r1 = head_bucket_result [OF h]
  from assms h obtain u where x: "x = Inr u"
    by (cases x) (auto simp: health_check_def)
  let ?w2 = "tick (print BucketVerified w1)"
  let ?b = "encode_utf8 lib (map of_char (''Health check at ''
              @ now_isoformat lib (clock (print BucketVerified w1)) @ [CHR 0x0A]))"
  obtain y w3 where p: "put_object health_key ?b ''text/plain'' None ?w2 = (y, w3)"
    by (cases "put_object health_key ?b ''text/plain'' None ?w2")
  note r2 = put_object_result [OF p]
  from assms h x p obtain v where y: "y = Inr v" and w': "w' = print (HealthWritten health_key) w3"
    by (cases y) (auto simp: health_check_def Let_def)
  from r2(6) y have o: "objects w3 = (objects w)(health_key \<mapsto>
                \<lparr>body = ?b, content_type = Some ''text/plain'', tagging = None\<rparr>)"
    using r1(3) by simp
  have c: "calls w' = calls w @ [HeadBucket, PutObject health_key ?b ''text/plain'' None]"
    using r1(1) r2(1) w' by simp
  from c o w' show "\<exists>b. calls w' = calls w @ [HeadBucket, PutObject health_key b ''text/plain'' None]
           \<and> objects w' = (objects w)(health_key \<mapsto>
                \<lparr>body = b, content_type = Some ''text/plain'', tagging = None\<rparr>)"
    by auto
  show "listing w' = listing w" using r1(4) r2(3) w' by simp
  show "faults w' = tl (tl (faults w))" using r1(6) r2(5) w' by simp
  show "stdout w' = stdout w @ [BucketVerified, HealthWritten health_key]"
    using r1(2) r2(2) w' by simp
qed

lemma health_check_served:
  assumes "served 2 w"
  shows "fst (health_check lib w) = True"
proof -
  obtain x w1 where h: "head_bucket w = (x, w1)" by (cases "head_bucket w")
  note r1 = head_bucket_result [OF h]
  have s1: "served 1 w" "served 1 w1"
    using assms r1(6) by (cases "faults w"; cases "tl (faults w)"; simp add: served_def)+
  with r1(7) obtain u where x: "x = Inr u"
    by (cases x; cases "faults w") (auto simp: served_def)
  let ?w2 = "tick (print BucketVerified w1)"
  let ?b = "encode_utf8 lib (map of_char (''Health check at ''
              @ now_isoformat lib (clock (print BucketVerified w1)) @ [CHR 0x0A]))"
  obtain y w3 where p: "put_object health_key ?b ''text/plain'' None ?w2 = (y, w3)"
    by (cases "put_object health_key ?b ''text/plain'' None ?w2")
  note r2 = put_object_result [OF p]
  have "served 1 ?w2" using s1(2) by (simp add: served_def)
  with r2(6) obtain v where y: "y = Inr v"
    by (cases y; cases "faults ?w2") (auto simp: served_def)
  show ?thesis
    using h x p y by (simp add: health_check_def Let_def)
qed

text \<open>Discovery reads: the requests it issues are listings, and the objects stay.\<close>

lemma paginate_frame:
  "paginate pfx pages i fbb w = (x, w') \<Longrightarrow>
   objects w' = objects w \<and> stdout w' = stdout w
   \<and> (\<exists>cs. calls w' = calls w @ cs \<and> filter is_put cs = [])"
proof (induction pages arbitrary: i fbb w)
  case Nil
  then show ?case by simp
next
  case (Cons page pages)
  obtain f w1 where r: "s3_request (ListObjectsV2 pfx i) w = (f, w1)"
    by (cases "s3_request (ListObjectsV2 pfx i) w")
  note s = s3_request_result [OF r]
  show ?case
  proof (cases f)
    case (Some e)
    with Cons.prems r have "w' = w1" by simp
    with s show ?thesis by (simp add: is_put_def)
  next
    case None
    let ?fbb = "case page of None \<Rightarrow> fbb
                | Some contents \<Rightarrow> foldl (\<lambda>fbb key. record_key key fbb) fbb contents"
    from Cons.prems r None have "paginate pfx pages (Suc i) ?fbb w1 = (x, w')"
      by (cases page) simp_all
    from Cons.IH [OF this] s show ?thesis
      by (auto simp: is_put_def)
  qed
qed

lemma discover_pairs_frame:
  "objects (snd (discover_pairs pfx w)) = objects w"
  "\<exists>cs. calls (snd (discover_pairs pfx w)) = calls w @ cs \<and> filter is_put cs = []"
proof -
  obtain x w1 where p: "paginate pfx (listing w pfx) 0 [] w = (x, w1)"
    by (cases "paginate pfx (listing w pfx) 0 [] w")
  note f = paginate_frame [OF p]
  have "objects (snd (discover_pairs pfx w)) = objects w1
      \<and> calls (snd (discover_pairs pfx w)) = calls w1"
    by (cases x) (simp_all add: discover_pairs_def p complete_pairs_eq)
  with f show "objects (snd (discover_pairs pfx w)) = objects w"
    "\<exists>cs. calls (snd (discover_pairs pfx w)) = calls w @ cs \<and> filter is_put cs = []"
    by auto
qed



lemma main_no_pairs:
  assumes "health_check lib (print Blank (print (Banner (bucket_name lib) pfx) w)) = (True, w1)"
      and "fst (discover_pairs pfx (print Blank w1)) = []"
  shows "main lib pfx w = (0, print NoPairs (snd (discover_pairs pfx (print Blank w1))))"
proof -
  obtain pairs w2 where d: "discover_pairs pfx (print Blank w1) = (pairs, w2)"
    by (cases "discover_pairs pfx (print Blank w1)")
  with assms(2) have "pairs = []" by simp
  with d assms(1) show ?thesis
    by (simp add: main_def ingest_def)
qed

text \<open>
  Claim C8. In a run whose health check passes and whose discovery returns no pair, the
  exit code is 0, the one write issued is the write of the health file, and the objects of
  the store are those it had, with the health file added.
\<close>

theorem main_empty_prefix:
  assumes "health_check lib (print Blank (print (Banner (bucket_name lib) pfx) w)) = (True, w1)"
      and "fst (discover_pairs pfx (print Blank w1)) = []"
  shows "fst (main lib pfx w) = 0
       \<and> (\<exists>b. filter is_put (new_calls w (snd (main lib pfx w)))
                 = [PutObject health_key b ''text/plain'' None]
              \<and> objects (snd (main lib pfx w))
                  = (objects w)(health_key \<mapsto>
                       \<lparr>body = b, content_type = Some ''text/plain'', tagging = None\<rparr>))"
proof -
  let ?w0 = "print Blank (print (Banner (bucket_name lib) pfx) w)"
  let ?w2 = "snd (discover_pairs pfx (print Blank w1))"
  note m = main_no_pairs [OF assms]
  from health_check_passed(1) [OF assms(1)]
  obtain b where b: "calls w1 = calls w @ [HeadBucket, PutObject health_key b ''text/plain'' None]"
    "objects w1 = (objects w)(health_key \<mapsto>
                \<lparr>body = b, content_type = Some ''text/plain'', tagging = None\<rparr>)"
    by auto
  from discover_pairs_frame [of pfx "print Blank w1"]
  obtain cs where cs: "calls ?w2 = calls w1 @ cs" "filter is_put cs = []" "objects ?w2 = objects w1"
    by auto
  have "calls (snd (main lib pfx w))
      = calls w @ ([HeadBucket, PutObject health_key b ''text/plain'' None] @ cs)"
    unfolding m using cs(1) b(1) by simp
  then have "new_calls w (snd (main lib pfx w))
      = [HeadBucket, PutObject health_key b ''text/plain'' None] @ cs"
    by (rule new_calls_append)
  then have "filter is_put (new_calls w (snd (main lib pfx w)))
      = [PutObject health_key b ''text/plain'' None]"
    using cs(2) by (simp add: is_put_def)
  moreover have "objects (snd (main lib pfx w)) = (objects w)(health_key \<mapsto>
                \<lparr>body = b, content_type = Some ''text/plain'', tagging = None\<rparr>)"
    unfolding m using cs(3) b(2) by simp
  moreover have "fst (main lib pfx w) = 0"
    unfolding m by simp
  ultimately show ?thesis by blast
qed



lemma discover_pairs_nothing_listed:
  assumes "served (length (listing w pfx)) w" and "listed_keys (listing w pfx) = []"
  shows "fst (discover_pairs pfx w) = []"
proof -
  from discover_pairs_served [OF assms(1)]
  obtain fbb where fbb: "map_of fbb = expected (set (listed_keys (listing w pfx)))"
    "fst (discover_pairs pfx w) = concat (map pair_of fbb)"
    by blast
  from fbb(1) have "map_of fbb = Map.empty"
    unfolding assms(2) using expected_empty by simp
  then have "fbb = []" by (simp only: map_of_eq_empty_iff)
  with fbb(2) show ?thesis by simp
qed

lemma listing_sample:
  "listing store_sample ''empty/'' = [None]"
  "listing store_sample ''uploads/''
     = [Some [''uploads/m1.json'', ''uploads/m1.txt'', ''uploads/b.json'']]"
  by (simp_all add: store_sample_def)

lemma store_timeout_facts:
  "stdout store_timeout = []" "calls store_timeout = []" "listing store_timeout = listing store_sample"
  "faults store_timeout = [None, None, Some (OtherError ''timeout'')]"
  "objects store_timeout = objects store_sample"
  by (simp_all add: store_timeout_def store_sample_def)

text \<open>The health check of the two sample runs.\<close>

lemma health_sample:
  "health_check lib_sample (print Blank (print (Banner (bucket_name lib_sample) pfx) store_sample))
     = (True, snd (health_check lib_sample
                     (print Blank (print (Banner (bucket_name lib_sample) pfx) store_sample))))"
  "health_check lib_sample (print Blank (print (Banner (bucket_name lib_sample) pfx) store_timeout))
     = (True, snd (health_check lib_sample
                     (print Blank (print (Banner (bucket_name lib_sample) pfx) store_timeout))))"
proof -
  have "served 2 (print Blank (print (Banner (bucket_name lib_sample) pfx) store_sample))"
    by (simp add: served_def store_sample_def)
  from health_check_served [OF this, of lib_sample]
  show "health_check lib_sample (print Blank (print (Banner (bucket_name lib_sample) pfx) store_sample))
     = (True, snd (health_check lib_sample
                     (print Blank (print (Banner (bucket_name lib_sample) pfx) store_sample))))"
    by (simp add: prod_eq_iff)
  have "served 2 (print Blank (print (Banner (bucket_name lib_sample) pfx) store_timeout))"
    by (simp add: served_def store_timeout_def)
  from health_check_served [OF this, of lib_sample]
  show "health_check lib_sample (print Blank (print (Banner (bucket_name lib_sample) pfx) store_timeout))
     = (True, snd (health_check lib_sample
                     (print Blank (print (Banner (bucket_name lib_sample) pfx) store_timeout))))"
    by (simp add: prod_eq_iff)
qed

lemma health_sample_after:
  "listing (snd (health_check lib_sample
       (print Blank (print (Banner (bucket_name lib_sample) pfx) store_sample)))) = listing store_sample"
  "faults (snd (health_check lib_sample
       (print Blank (print (Banner (bucket_name lib_sample) pfx) store_sample)))) = []"
  "listing (snd (health_check lib_sample
       (print Blank (print (Banner (bucket_name lib_sample) pfx) store_timeout)))) = listing store_sample"
  "faults (snd (health_check lib_sample
       (print Blank (print (Banner (bucket_name lib_sample) pfx) store_timeout))))
     = [Some (OtherError ''timeout'')]"
  using health_check_passed(2,3) [OF health_sample(1), of pfx]
    health_check_passed(2,3) [OF health_sample(2), of pfx]
  by (simp_all add: store_sample_facts store_timeout_facts)

text \<open>
  Claim C8 on the sample store and a prefix under which the listing names no key.
\<close>

theorem main_empty_prefix_witness:
  "health_check lib_sample
       (print Blank (print (Banner (bucket_name lib_sample) ''empty/'') store_sample))
     = (True, snd (health_check lib_sample
                     (print Blank (print (Banner (bucket_name lib_sample) ''empty/'') store_sample))))
   \<and> fst (discover_pairs ''empty/''
            (print Blank (snd (health_check lib_sample
               (print Blank (print (Banner (bucket_name lib_sample) ''empty/'') store_sample))))))
       = []
   \<and> fst (main lib_sample ''empty/'' store_sample) = 0
   \<and> length (filter is_put (new_calls store_sample (snd (main lib_sample ''empty/'' store_sample))))
       = 1
   \<and> dom (objects (snd (main lib_sample ''empty/'' store_sample)))
       = insert health_key (dom (objects store_sample))"
proof -
  let ?w1 = "snd (health_check lib_sample
               (print Blank (print (Banner (bucket_name lib_sample) ''empty/'') store_sample)))"
  have l: "listing (print Blank ?w1) ''empty/'' = [None]"
    by (simp add: health_sample_after listing_sample)
  have s: "served (length (listing (print Blank ?w1) ''empty/'')) (print Blank ?w1)"
    by (simp add: served_def health_sample_after)
  have d: "fst (discover_pairs ''empty/'' (print Blank ?w1)) = []"
  proof (rule discover_pairs_nothing_listed [OF s])
    show "listed_keys (listing (print Blank ?w1) ''empty/'') = []"
      unfolding l by (simp add: listed_keys_def)
  qed
  from main_empty_prefix [OF health_sample(1) d]
  have "fst (main lib_sample ''empty/'' store_sample) = 0
   \<and> length (filter is_put (new_calls store_sample (snd (main lib_sample ''empty/'' store_sample))))
       = 1
   \<and> dom (objects (snd (main lib_sample ''empty/'' store_sample)))
       = insert health_key (dom (objects store_sample))"
    by auto
  with health_sample(1) [of "''empty/''"] d show ?thesis by blast
qed



subsection \<open>The loop over the pairs\<close>

lemma process_pairs_acc:
  "process_pairs lib pairs (es @ es') (n + n') w =
     (case process_pairs lib pairs es' n' w of (a, b, c) \<Rightarrow> (es @ a, n + b, c))"
proof (induction pairs arbitrary: es' n' w)
  case Nil
  then show ?case by simp
next
  case (Cons p pairs)
  obtain b j t where p: "p = (b, j, t)" by (cases p)
  note ih1 = Cons.IH [of _ "n' + 1", simplified] and ih0 = Cons.IH [of _ n']
  show ?case
    unfolding p by (simp add: ih0 ih1 split: prod.splits option.splits)
qed

lemma process_pairs_continued:
  "process_pairs lib pairs es n w = continued lib pairs es n w"
  using process_pairs_acc [of lib pairs es "[]" n 0 w] by (simp add: continued_def)

lemma process_pairs_count:
  "process_pairs lib pairs es n w = (es', n', w') \<Longrightarrow>
   length es' = length es + 2 * (n' - n) \<and> n \<le> n' \<and> n' \<le> n + length pairs"
proof (induction pairs arbitrary: es n w)
  case Nil
  then show ?case by simp
next
  case (Cons p pairs)
  obtain b j t where p: "p = (b, j, t)" by (cases p)
  from Cons.prems obtain es0 n0 w0 where
    step: "process_pairs lib pairs es0 n0 w0 = (es', n', w')"
      and acc: "es0 = es \<and> n0 = n \<or> length es0 = length es + 2 \<and> n0 = n + 1"
    unfolding p by (auto split: prod.splits option.splits)
  from Cons.IH [OF step] acc show ?case by auto
qed

text \<open>
  Claim C6. Take a pair and the outcomes of the two fetches of its members. If one of the
  fetches has failed, or both have succeeded and the curation fails, the pair adds nothing
  to the entries and to the count; if the curation succeeds too, the pair adds two
  entries, the one of the structured file and then the one of the text file, which
  carries the result of the curation, and the count grows by one. In each case the loop
  goes on with the remaining pairs, whose entries come after those collected so far.
  Whatever the pairs, the number of entries added is twice the growth of the count.
\<close>

theorem process_pairs_manifest_completeness:
  assumes "get_object_info lib json_key (print (ProcessingPair (basename base_key)) w)
             = (json_info, w1)"
      and "get_object_info lib txt_key w1 = (txt_info, w2)"
  shows "(json_info = None \<or> txt_info = None \<longrightarrow>
            process_pairs lib ((base_key, json_key, txt_key) # pairs) es n w
              = continued lib pairs es n (print (FileInfoFailed base_key) w2))
       \<and> (\<forall>ji ti w3. json_info = Some ji \<and> txt_info = Some ti
               \<and> curate_file lib base_key txt_key ti w2 = (None, w3) \<longrightarrow>
            process_pairs lib ((base_key, json_key, txt_key) # pairs) es n w
              = continued lib pairs es n (print (CurationFailed base_key) w3))
       \<and> (\<forall>ji ti c w3. json_info = Some ji \<and> txt_info = Some ti
               \<and> curate_file lib base_key txt_key ti w2 = (Some c, w3) \<longrightarrow>
            process_pairs lib ((base_key, json_key, txt_key) # pairs) es n w
              = continued lib pairs (es @ [json_entry ji, txt_entry ti c]) (n + 1)
                  (print Blank (print (Processed base_key) w3))
            \<and> entry_key (json_entry ji) = info_key ji \<and> entry_curation (json_entry ji) = None
            \<and> entry_key (txt_entry ti c) = info_key ti \<and> entry_curation (txt_entry ti c) = Some c)
       \<and> (\<forall>ps es' n' w'. process_pairs lib ps es n w = (es', n', w') \<longrightarrow>
            length es' = length es + 2 * (n' - n) \<and> n \<le> n' \<and> n' \<le> n + length ps)"
proof -
  let ?lhs = "process_pairs lib ((base_key, json_key, txt_key) # pairs) es n w"
  have 1: "?lhs = continued lib pairs es n (print (FileInfoFailed base_key) w2)"
    if "json_info = None \<or> txt_info = None"
  proof -
    from that have "?lhs = process_pairs lib pairs es n (print (FileInfoFailed base_key) w2)"
      by (cases json_info; cases txt_info) (simp_all add: assms)
    then show ?thesis by (simp only: process_pairs_continued)
  qed
  have 2: "?lhs = continued lib pairs es n (print (CurationFailed base_key) w3)"
    if "json_info = Some ji" "txt_info = Some ti"
      "curate_file lib base_key txt_key ti w2 = (None, w3)" for ji ti w3
  proof -
    from that have "?lhs = process_pairs lib pairs es n (print (CurationFailed base_key) w3)"
      by (simp add: assms)
    then show ?thesis by (simp only: process_pairs_continued)
  qed
  have 3: "?lhs = continued lib pairs (es @ [json_entry ji, txt_entry ti c]) (n + 1)
                  (print Blank (print (Processed base_key) w3))"
    if "json_info = Some ji" "txt_info = Some ti"
      "curate_file lib base_key txt_key ti w2 = (Some c, w3)" for ji ti c w3
  proof -
    from that have "?lhs = process_pairs lib pairs (es @ [json_entry ji, txt_entry ti c]) (n + 1)
                  (print Blank (print (Processed base_key) w3))"
      by (simp add: assms)
    then show ?thesis by (simp only: process_pairs_continued)
  qed
  have 4: "entry_key (json_entry ji) = info_key ji \<and> entry_curation (json_entry ji) = None
            \<and> entry_key (txt_entry ti c) = info_key ti \<and> entry_curation (txt_entry ti c) = Some c"
    for ji ti c
    by (simp add: json_entry_def txt_entry_def)
  have 5: "length es' = length es + 2 * (n' - n) \<and> n \<le> n' \<and> n' \<le> n + length ps"
    if "process_pairs lib ps es n w = (es', n', w')" for ps es' n' w'
    using that by (rule process_pairs_count)
  from 1 2 3 4 5 show ?thesis by blast
qed

text \<open>The fetch of an object when no request raises.\<close>

lemma get_object_info_unhindered:
  assumes "faults w = []"
  shows "fst (get_object_info lib key w) =
           map_option (\<lambda>obj.
             \<lparr>info_key = key,
              info_size_bytes = length (body obj),
              info_content_type =
                (case content_type obj of None \<Rightarrow> ''application/octet-stream'' | Some t \<Rightarrow> t),
              info_checksum = ''sha256:'' @ sha256_hexdigest lib (body obj),
              info_content = body obj\<rparr>) (objects w key)"
    and "objects (snd (get_object_info lib key w)) = objects w"
    and "faults (snd (get_object_info lib key w)) = []"
  by (simp_all add: get_object_info_def head_object_def get_object_def s3_request_def assms
      calculate_sha256_def split: option.splits)

lemma objects_sample:
  "objects store_sample ''uploads/b.json'' = None"
  "objects store_sample ''uploads/b.txt'' = None"
  "objects store_sample ''uploads/m1.json''
     = Some \<lparr>body = transcript_bytes, content_type = Some ''application/json'', tagging = None\<rparr>"
  "objects store_sample ''uploads/m1.txt''
     = Some \<lparr>body = minutes_bytes, content_type = Some ''text/plain'', tagging = None\<rparr>"
  by (simp_all add: store_sample_def)

lemma continued_Nil: "continued lib [] es n w = (es, n, w)"
  by (simp add: continued_def)

text \<open>
  Claim C6 on the sample store, for a pair whose files are not stored followed by the pair
  of the sample minutes: the first adds nothing, the second its two entries.
\<close>

theorem process_pairs_manifest_completeness_witness:
  "fst (get_object_info lib_sample ''uploads/b.json''
          (print (ProcessingPair (basename ''uploads/b'')) store_sample)) = None
   \<and> fst (process_pairs lib_sample
            [(''uploads/b'', ''uploads/b.json'', ''uploads/b.txt''),
             (''uploads/m1'', ''uploads/m1.json'', ''uploads/m1.txt'')] [] 0 store_sample)
       = [json_entry transcript_info, txt_entry minutes_info minutes_curation]
   \<and> fst (snd (process_pairs lib_sample
            [(''uploads/b'', ''uploads/b.json'', ''uploads/b.txt''),
             (''uploads/m1'', ''uploads/m1.json'', ''uploads/m1.txt'')] [] 0 store_sample))
       = 1"
proof -
  note [simp] = get_object_info_unhindered(2,3) store_sample_facts(2)
  let ?wa = "print (ProcessingPair (basename ''uploads/b'')) store_sample"
  let ?w1 = "snd (get_object_info lib_sample ''uploads/b.json'' ?wa)"
  let ?w2 = "snd (get_object_info lib_sample ''uploads/b.txt'' ?w1)"
  let ?w3 = "print (FileInfoFailed ''uploads/b'') ?w2"
  let ?wb = "print (ProcessingPair (basename ''uploads/m1'')) ?w3"
  let ?w4 = "snd (get_object_info lib_sample ''uploads/m1.json'' ?wb)"
  let ?w5 = "snd (get_object_info lib_sample ''uploads/m1.txt'' ?w4)"
  let ?w6 = "snd (curate_file lib_sample ''uploads/m1'' ''uploads/m1.txt'' minutes_info ?w5)"
  have gjb: "get_object_info lib_sample ''uploads/b.json'' ?wa = (None, ?w1)"
    by (simp add: prod_eq_iff get_object_info_unhindered(1) objects_sample)
  have gtb: "get_object_info lib_sample ''uploads/b.txt'' ?w1 = (None, ?w2)"
    by (simp add: prod_eq_iff get_object_info_unhindered(1) objects_sample)
  have gjm: "get_object_info lib_sample ''uploads/m1.json'' ?wb = (Some transcript_info, ?w4)"
    by (simp add: prod_eq_iff get_object_info_unhindered(1) objects_sample transcript_info_def
        transcript_bytes_def)
  have gtm: "get_object_info lib_sample ''uploads/m1.txt'' ?w4 = (Some minutes_info, ?w5)"
    by (simp add: prod_eq_iff get_object_info_unhindered(1) objects_sample minutes_info_def
        minutes_bytes_def)
  have h: "map_option (\<lambda>obj. sha256_hexdigest lib_sample (body obj))
             (objects ?w5 (curated_key_of ''uploads/m1''))
           \<noteq> Some (sha256_hexdigest lib_sample (normalized_bytes_of lib_sample minutes_info))"
    by (simp add: curated_key_of_samples store_sample_facts(1))
  have f: "faults ?w5 = []" by simp
  have cur: "curate_file lib_sample ''uploads/m1'' ''uploads/m1.txt'' minutes_info ?w5
      = (Some minutes_curation, ?w6)"
    using curate_file_unhindered(1) [OF h f, of "''uploads/m1.txt''"]
    by (simp add: prod_eq_iff curation_of_minutes)
  from process_pairs_manifest_completeness [OF gjb gtb,
      of "[(''uploads/m1'', ''uploads/m1.json'', ''uploads/m1.txt'')]" "[]" 0]
  have s1: "process_pairs lib_sample
            [(''uploads/b'', ''uploads/b.json'', ''uploads/b.txt''),
             (''uploads/m1'', ''uploads/m1.json'', ''uploads/m1.txt'')] [] 0 store_sample
      = continued lib_sample [(''uploads/m1'', ''uploads/m1.json'', ''uploads/m1.txt'')] [] 0 ?w3"
    by blast
  note t = process_pairs_manifest_completeness [OF gjm gtm, of "[]" "[]" 0,
      THEN conjunct2, THEN conjunct2, THEN conjunct1, rule_format,
      OF conjI [OF refl conjI [OF refl cur]], THEN conjunct1]
  have s2: "process_pairs lib_sample
            [(''uploads/m1'', ''uploads/m1.json'', ''uploads/m1.txt'')] [] 0 ?w3
      = ([json_entry transcript_info, txt_entry minutes_info minutes_curation], 1,
         print Blank (print (Processed ''uploads/m1'') ?w6))"
    using t by (simp only: continued_Nil append_Nil add_0)
  have r: "process_pairs lib_sample
            [(''uploads/b'', ''uploads/b.json'', ''uploads/b.txt''),
             (''uploads/m1'', ''uploads/m1.json'', ''uploads/m1.txt'')] [] 0 store_sample
      = ([json_entry transcript_info, txt_entry minutes_info minutes_curation], 1,
         print Blank (print (Processed ''uploads/m1'') ?w6))"
    unfolding s1 continued_def s2 by simp
  have g: "fst (get_object_info lib_sample ''uploads/b.json'' ?wa) = None"
    using arg_cong [OF gjb, of fst] by (simp only: fst_conv)
  show ?thesis
    unfolding r by (simp only: g fst_conv snd_conv simp_thms)
qed

end
